theory Spec2Isabelle
  imports Complex_Main "HOL-Library.AList" "HOL-Library.Multiset"
begin

section \<open>Snake Arena: the simulation engine and the room state machine\<close>

text \<open>
  A shallow embedding of \<^verbatim>\<open>GameEngine.js\<close>, \<^verbatim>\<open>Room.js\<close> and the constants
  they read from \<^verbatim>\<open>constants.js\<close>.

  JavaScript numbers that hold coordinates, angles and speeds are modelled as
  \<^typ>\<open>real\<close>; counters (tick, length, kills) as \<^typ>\<open>nat\<close>; scores and
  the generator state as \<^typ>\<open>int\<close>. A JavaScript \<^verbatim>\<open>Map\<close> is an association
  list in insertion order, read with \<^const>\<open>map_of\<close>, written with
  \<^const>\<open>AList.update\<close> (an existing key keeps its place, a new key goes last) and
  \<^const>\<open>AList.delete\<close>. Dereferencing \<^verbatim>\<open>undefined\<close> is the error value
  \<open>TypeError\<close>; a call that never returns, because a loop in it does not end, is the
  value \<open>NoReturn\<close>.

  The two loops that normalise an angle difference subtract or add \<^verbatim>\<open>TWO_PI\<close> until
  the difference is in range. Whether they end depends on the rounding of double
  arithmetic (a large double is unchanged by the subtraction), so the subtraction that
  feeds them and the one inside them are rounded to the nearest double, and
  \<^verbatim>\<open>Math.PI\<close> is the double it is in JavaScript. All other arithmetic is exact.
\<close>

subsection \<open>Constants\<close>

definition INITIAL_SNAKE_LENGTH :: nat where "INITIAL_SNAKE_LENGTH = 10"
definition SNAKE_SPEED :: real where "SNAKE_SPEED = 3"
definition SNAKE_BOOST_SPEED :: real where "SNAKE_BOOST_SPEED = 55 / 10"
definition SNAKE_TURN_RATE :: real where "SNAKE_TURN_RATE = 12 / 100"
definition SNAKE_SEGMENT_RADIUS :: real where "SNAKE_SEGMENT_RADIUS = 8"
definition SNAKE_HEAD_RADIUS :: real where "SNAKE_HEAD_RADIUS = 10"
definition GROW_PER_FOOD :: nat where "GROW_PER_FOOD = 2"
definition BOOST_COST_INTERVAL :: nat where "BOOST_COST_INTERVAL = 5"
definition MAX_SNAKE_SEGMENTS :: nat where "MAX_SNAKE_SEGMENTS = 200"
definition FOOD_BASE_COUNT :: nat where "FOOD_BASE_COUNT = 120"
definition FOOD_PER_PLAYER :: nat where "FOOD_PER_PLAYER = 8"
definition FOOD_SCORE :: int where "FOOD_SCORE = 10"
definition FOOD_RADIUS :: real where "FOOD_RADIUS = 5"
definition BONUS_FOOD_CHANCE :: real where "BONUS_FOOD_CHANCE = 12 / 100"
definition POWERUP_SPAWN_CHANCE :: real where "POWERUP_SPAWN_CHANCE = 8 / 1000"
definition POWERUP_MAX :: nat where "POWERUP_MAX = 5"
definition POWERUP_DESPAWN_TICKS :: int where "POWERUP_DESPAWN_TICKS = 200"
definition COLLISION_GRACE_SEGMENTS :: nat where "COLLISION_GRACE_SEGMENTS = 5"
definition BOUNDARY_KILL_MARGIN :: real where "BOUNDARY_KILL_MARGIN = 50"

text \<open>\<^verbatim>\<open>Math.PI\<close>, the double nearest to \<open>\<pi>\<close>, and \<^verbatim>\<open>TWO_PI = Math.PI * 2\<close>.\<close>

definition MATH_PI :: real where "MATH_PI = 884279719003555 / 281474976710656"
definition TWO_PI :: real where "TWO_PI = MATH_PI * 2"

subsection \<open>Data model\<close>

type_synonym player_id = string

datatype error = TypeError | NoReturn

record point =
  px :: real
  py :: real

datatype food_type = Normal | Bonus

record food_item =
  fx :: real
  fy :: real
  ftype :: food_type
  fvalue :: int

datatype powerup_type = Speed | Shield | Ghost

text \<open>
  A field power-up. Its id is the string \<^verbatim>\<open>pu_<tick>_<n>\<close>, kept here as the pair
  of the two numbers. Its type is \<^verbatim>\<open>types[randInt(0, 2)]\<close>, which is
  \<^verbatim>\<open>undefined\<close> (\<open>None\<close>) when the index falls outside the array.
\<close>

record powerup_item =
  pu_id :: "nat \<times> int"
  pu_x :: real
  pu_y :: real
  pu_type :: "powerup_type option"
  pu_spawnTick :: nat

datatype death_cause = Wall | Self | HeadCollision | Collision

record snake =
  snake_id :: player_id
  username :: string
  pattern :: string
  color :: string
  segments :: "point list"
  angle :: real
  targetAngle :: real
  boosting :: bool
  alive :: bool
  score :: int
  kills :: nat
  snake_length :: nat
  growPending :: nat
  activePowerups :: "(powerup_type \<times> int) list"
  deathTick :: "nat option"
  deathCause :: "death_cause option"
  killedBy :: "player_id option"
  spawnTick :: nat

datatype event =
    KillEvent player_id string player_id string death_cause
  | DeathEvent player_id string string death_cause "player_id option" int nat nat
  | EatEvent player_id string real real food_type nat int
  | PowerupSpawnEvent powerup_item
  | PowerupPickupEvent player_id string "powerup_type option"
  | PowerupExpiredEvent player_id powerup_type
  | PowerupDespawnEvent "nat \<times> int"

record engine =
  worldSize :: real
  centerX :: real
  centerY :: real
  boundaryRadius :: real
  snakes :: "(player_id \<times> snake) list"
  food :: "food_item list"
  powerups :: "powerup_item list"
  events :: "event list"
  tick :: nat
  rng :: int

text \<open>A value passed where the engine expects a number (the \<^verbatim>\<open>angle\<close> argument).\<close>

datatype js_value = JNum real | JNaN | JInfinity | JNegInfinity | JNotANumberType

text \<open>\<^verbatim>\<open>typeof v === "number" && isFinite(v)\<close>\<close>

fun finite_number :: "js_value \<Rightarrow> real option" where
  "finite_number (JNum a) = Some a"
| "finite_number JNaN = None"
| "finite_number JInfinity = None"
| "finite_number JNegInfinity = None"
| "finite_number JNotANumberType = None"

text \<open>The truthiness of \<^verbatim>\<open>snake.activePowerups.<type>\<close>: present and not zero.\<close>

definition active :: "powerup_type \<Rightarrow> snake \<Rightarrow> bool" where
  "active t s = (case map_of (activePowerups s) t of None \<Rightarrow> False | Some n \<Rightarrow> n \<noteq> 0)"

subsection \<open>Constructor\<close>

text \<open>JavaScript's \<^verbatim>\<open>%\<close> on integers: the sign follows the dividend.\<close>

definition js_mod :: "int \<Rightarrow> int \<Rightarrow> int" where
  "js_mod a m = sgn a * (\<bar>a\<bar> mod \<bar>m\<bar>)"

definition createRng :: "int \<Rightarrow> int" where
  "createRng seed = (let s = js_mod seed 2147483647 in if s \<le> 0 then s + 2147483646 else s)"

text \<open>\<^verbatim>\<open>new GameEngine(worldSize)\<close>; the argument \<open>now\<close> is \<^verbatim>\<open>Date.now()\<close>.\<close>

definition new_engine :: "real \<Rightarrow> int \<Rightarrow> engine" where
  "new_engine ws now =
     \<lparr> worldSize = ws, centerX = ws / 2, centerY = ws / 2,
       boundaryRadius = ws / 2 - BOUNDARY_KILL_MARGIN,
       snakes = [], food = [], powerups = [], events = [], tick = 0,
       rng = createRng now \<rparr>"

subsection \<open>Snake lifecycle and input\<close>

definition removeSnake :: "player_id \<Rightarrow> engine \<Rightarrow> engine" where
  "removeSnake playerId e = e\<lparr>snakes := AList.delete playerId (snakes e)\<rparr>"

text \<open>
  \<^verbatim>\<open>queueInput(playerId, angle, boosting)\<close>; \<open>boosting\<close> is the truthiness
  \<^verbatim>\<open>!!boosting\<close> of the third argument.
\<close>

definition queueInput :: "player_id \<Rightarrow> js_value \<Rightarrow> bool \<Rightarrow> engine \<Rightarrow> engine" where
  "queueInput playerId ang boost e =
     (case map_of (snakes e) playerId of
        None \<Rightarrow> e
      | Some snake \<Rightarrow>
          if \<not> alive snake then e
          else
            let snake1 = (case finite_number ang of
                            Some a \<Rightarrow> snake\<lparr>targetAngle := a\<rparr>
                          | None \<Rightarrow> snake);
                snake2 = snake1\<lparr>boosting := boost\<rparr>
            in e\<lparr>snakes := AList.update playerId snake2 (snakes e)\<rparr>)"

subsection \<open>Numeric helpers\<close>

text \<open>
  Rounding to the nearest double, ties to even: the unit in the last place of \<open>x\<close> is
  \<open>2\<close> to the power \<open>\<lfloor>log\<^sub>2 |x|\<rfloor> - 52\<close>, and not less than \<open>2\<close> to the power
  \<open>-1074\<close> (subnormal numbers). Overflow to \<^verbatim>\<open>Infinity\<close> is left out: the
  normalisation loops move a finite number toward zero.
\<close>

definition round_even :: "real \<Rightarrow> int" where
  "round_even x =
     (let f = \<lfloor>x\<rfloor>; r = x - of_int f
      in if r < 1 / 2 then f else if r > 1 / 2 then f + 1 else if even f then f else f + 1)"

definition fl :: "real \<Rightarrow> real" where
  "fl x =
     (if x = 0 then 0
      else let ex = max (\<lfloor>log 2 \<bar>x\<bar>\<rfloor> - 52) (- 1074);
               ulp = 2 powr (of_int ex)
           in of_int (round_even (x / ulp)) * ulp)"

text \<open>\<^verbatim>\<open>while (angleDiff > Math.PI) angleDiff -= TWO_PI\<close>; \<open>None\<close> when the loop
  does not end.\<close>

partial_function (option) norm_down :: "real \<Rightarrow> real option" where
  "norm_down d = (if d > MATH_PI then norm_down (fl (d - TWO_PI)) else Some d)"

text \<open>\<^verbatim>\<open>while (angleDiff < -Math.PI) angleDiff += TWO_PI\<close>\<close>

partial_function (option) norm_up :: "real \<Rightarrow> real option" where
  "norm_up d = (if d < - MATH_PI then norm_up (fl (d + TWO_PI)) else Some d)"

text \<open>JavaScript's \<^verbatim>\<open>%\<close> on numbers: the quotient is truncated toward zero.\<close>

definition js_trunc :: "real \<Rightarrow> int" where
  "js_trunc x = (if 0 \<le> x then \<lfloor>x\<rfloor> else \<lceil>x\<rceil>)"

definition js_fmod :: "real \<Rightarrow> real \<Rightarrow> real" where
  "js_fmod a b = a - b * of_int (js_trunc (a / b))"

definition dist2 :: "point \<Rightarrow> point \<Rightarrow> real" where
  "dist2 p q = (px p - px q) * (px p - px q) + (py p - py q) * (py p - py q)"

subsection \<open>Seeded pseudo-random number generator (Park-Miller)\<close>

text \<open>\<^verbatim>\<open>_randFloat()\<close>: the closure variable \<^verbatim>\<open>s\<close> is the field \<open>rng\<close>.\<close>

definition randFloat :: "engine \<Rightarrow> real \<times> engine" where
  "randFloat e =
     (let s = js_mod (rng e * 16807) 2147483647
      in ((of_int s - 1) / 2147483646, e\<lparr>rng := s\<rparr>))"

definition randInt :: "int \<Rightarrow> int \<Rightarrow> engine \<Rightarrow> int \<times> engine" where
  "randInt mn mx e =
     (let (r, e1) = randFloat e
      in (\<lfloor>r * of_int (mx - mn + 1)\<rfloor> + mn, e1))"

subsection \<open>Spawning\<close>






subsection \<open>Iterating over the snakes\<close>

text \<open>
  \<^verbatim>\<open>for (const snake of this.snakes.values())\<close>: the keys are visited in
  insertion order and the body mutates the engine; an exception ends the loop.
\<close>

fun for_each :: "('k \<Rightarrow> 's \<Rightarrow> error + 's) \<Rightarrow> 'k list \<Rightarrow> 's \<Rightarrow> error + 's" where
  "for_each f [] e = Inr e"
| "for_each f (k # ks) e =
     (case f k e of Inl err \<Rightarrow> Inl err | Inr e1 \<Rightarrow> for_each f ks e1)"

subsection \<open>Movement\<close>

text \<open>Smooth turn toward the target angle, kept in \<open>[0, 2\<pi>)\<close>; \<open>None\<close> when a
  normalisation loop does not end.\<close>

definition turn :: "snake \<Rightarrow> real option" where
  "turn snake =
     (case norm_down (fl (targetAngle snake - angle snake)) of
        None \<Rightarrow> None
      | Some d1 \<Rightarrow>
          (case norm_up d1 of
             None \<Rightarrow> None
           | Some angleDiff \<Rightarrow>
               let turnRate = SNAKE_TURN_RATE;
                   a = (if \<bar>angleDiff\<bar> \<le> turnRate then targetAngle snake
                        else angle snake + sgn angleDiff * turnRate)
               in Some (js_fmod (js_fmod a TWO_PI + TWO_PI) TWO_PI)))"

definition canBoost :: "snake \<Rightarrow> bool" where
  "canBoost snake = (boosting snake \<and> snake_length snake > INITIAL_SNAKE_LENGTH + 3)"

definition move_speed :: "snake \<Rightarrow> real" where
  "move_speed snake =
     (let speed = (if canBoost snake then SNAKE_BOOST_SPEED else SNAKE_SPEED)
      in if active Speed snake then speed * (14 / 10) else speed)"

text \<open>Growth / trimming, settling of growth and the hard cap, on the segments after
  \<^verbatim>\<open>unshift(newHead)\<close>.\<close>

definition grow_trim :: "snake \<Rightarrow> snake" where
  "grow_trim snake =
     (let targetLen = snake_length snake + growPending snake;
          s1 = (if length (segments snake) > targetLen
                then snake\<lparr>segments := take targetLen (segments snake)\<rparr> else snake);
          s2 = (if growPending s1 > 0 \<and> length (segments s1) \<ge> targetLen
                then s1\<lparr>snake_length := min targetLen MAX_SNAKE_SEGMENTS, growPending := 0\<rparr>
                else s1)
      in if length (segments s2) > MAX_SNAKE_SEGMENTS
         then s2\<lparr>segments := take MAX_SNAKE_SEGMENTS (segments s2),
                 snake_length := MAX_SNAKE_SEGMENTS\<rparr>
         else s2)"

text \<open>Boost cost: \<open>cb\<close> is \<^verbatim>\<open>canBoost\<close> as computed before the move. Returns the
  snake and the food to push.\<close>

definition boost_cost :: "bool \<Rightarrow> nat \<Rightarrow> snake \<Rightarrow> snake \<times> food_item list" where
  "boost_cost cb tk snake =
     (if cb \<and> tk mod BOOST_COST_INTERVAL = 0 then
        (if snake_length snake > INITIAL_SNAKE_LENGTH + 3 then
           (snake\<lparr>snake_length := snake_length snake - 1\<rparr>,
            (case segments snake of
               [] \<Rightarrow> []
             | _ # _ \<Rightarrow> [\<lparr>fx = px (last (segments snake)), fy = py (last (segments snake)),
                          ftype = Normal, fvalue = FOOD_SCORE\<rparr>]))
         else (snake, []))
      else (snake, []))"

text \<open>Ghost wrap-around: the head is teleported to the opposite side.\<close>

definition ghost_wrap :: "engine \<Rightarrow> snake \<Rightarrow> error + snake" where
  "ghost_wrap e snake =
     (if active Ghost snake then
        (case segments snake of
           [] \<Rightarrow> Inl TypeError
         | gh # rest \<Rightarrow>
             let gdx = px gh - centerX e;
                 gdy = py gh - centerY e;
                 gDist = sqrt (gdx * gdx + gdy * gdy)
             in if gDist > boundaryRadius e
                then Inr (snake\<lparr>segments :=
                            \<lparr>px = centerX e - gdx * (8 / 10), py = centerY e - gdy * (8 / 10)\<rparr> # rest\<rparr>)
                else Inr snake)
      else Inr snake)"

text \<open>
  The body of the loop of \<^verbatim>\<open>_moveSnakes\<close> for a living snake: the moved snake and
  the food to push.
\<close>

definition move_one :: "engine \<Rightarrow> snake \<Rightarrow> error + snake \<times> food_item list" where
  "move_one e snake =
     (case turn snake of
        None \<Rightarrow> Inl NoReturn
      | Some a \<Rightarrow>
          let cb = canBoost snake;
              speed = move_speed snake
          in case segments snake of
               [] \<Rightarrow> Inl TypeError
             | head # _ \<Rightarrow>
                 let newHead = \<lparr>px = px head + cos a * speed, py = py head + sin a * speed\<rparr>;
                     s1 = grow_trim (snake\<lparr>angle := a, segments := newHead # segments snake\<rparr>);
                     (s2, crumbs) = boost_cost cb (tick e) s1
                 in (case ghost_wrap e s2 of
                       Inl err \<Rightarrow> Inl err
                     | Inr s3 \<Rightarrow> Inr (s3, crumbs)))"

text \<open>The loop body for the snake stored under \<open>k\<close>; a dead snake is skipped.\<close>

definition moveSnake :: "player_id \<Rightarrow> engine \<Rightarrow> error + engine" where
  "moveSnake k e =
     (case map_of (snakes e) k of
        None \<Rightarrow> Inr e
      | Some snake \<Rightarrow>
          if \<not> alive snake then Inr e
          else
            (case move_one e snake of
               Inl err \<Rightarrow> Inl err
             | Inr (s3, crumbs) \<Rightarrow>
                 Inr (e\<lparr>snakes := AList.update k s3 (snakes e),
                        food := food e @ crumbs\<rparr>)))"

definition moveSnakes :: "engine \<Rightarrow> error + engine" where
  "moveSnakes e = for_each moveSnake (map fst (snakes e)) e"

subsection \<open>Collision detection\<close>

record death =
  death_id :: player_id
  cause :: death_cause
  killerId :: "player_id option"

text \<open>\<^verbatim>\<open>deaths.some((d) => d.id === id)\<close>\<close>

definition deaths_some :: "player_id \<Rightarrow> death list \<Rightarrow> bool" where
  "deaths_some k deaths = list_ex (\<lambda>d. death_id d = k) deaths"

text \<open>Self collision: the head against the own segments from index \<^verbatim>\<open>selfGrace\<close> on.\<close>

definition self_hit :: "snake \<Rightarrow> point \<Rightarrow> bool" where
  "self_hit snake head =
     (let selfGrace = max 8 (nat \<lfloor>real (length (segments snake)) * (15 / 100)\<rfloor>);
          threshold = SNAKE_HEAD_RADIUS + SNAKE_SEGMENT_RADIUS * (6 / 10)
      in list_ex (\<lambda>seg. dist2 head seg < threshold * threshold)
           (drop selfGrace (segments snake)))"

text \<open>The first loop of \<^verbatim>\<open>_detectCollisions\<close>: boundary and self collision.\<close>

fun boundary_self :: "engine \<Rightarrow> (player_id \<times> snake) list \<Rightarrow> death list \<Rightarrow> error + death list" where
  "boundary_self e [] deaths = Inr deaths"
| "boundary_self e ((k, snake) # rest) deaths =
     (if \<not> alive snake then boundary_self e rest deaths
      else
        (case segments snake of
           [] \<Rightarrow> Inl TypeError
         | head # _ \<Rightarrow>
             let dx = px head - centerX e;
                 dy = py head - centerY e;
                 distFromCenter = sqrt (dx * dx + dy * dy)
             in if distFromCenter > boundaryRadius e \<and> \<not> active Ghost snake
                then boundary_self e rest
                       (deaths @ [\<lparr>death_id = k, cause = Wall, killerId = None\<rparr>])
                else if \<not> active Shield snake \<and> self_hit snake head
                then boundary_self e rest
                       (deaths @ [\<lparr>death_id = k, cause = Self, killerId = None\<rparr>])
                else boundary_self e rest deaths))"

text \<open>
  Head-to-head between entry \<open>i\<close> (snake A) and entry \<open>j\<close> (snake B), tried only
  when \<open>j > i\<close>. \<open>Inr None\<close>: the heads are apart and the body check follows;
  \<open>Inr (Some ds)\<close>: the heads collide, \<open>ds\<close> is pushed and the loop continues with
  the next \<open>j\<close>.
\<close>

definition head_to_head ::
  "nat \<Rightarrow> nat \<Rightarrow> player_id \<Rightarrow> snake \<Rightarrow> player_id \<Rightarrow> snake \<Rightarrow> error + death list option" where
  "head_to_head i j idA snakeA idB snakeB =
     (if j > i then
        (case segments snakeA of
           [] \<Rightarrow> Inl TypeError
         | headA # restA \<Rightarrow>
             (case segments snakeB of
                [] \<Rightarrow> Inl TypeError
              | headB # restB \<Rightarrow>
                  let hhDist = dist2 headA headB;
                      hhThreshold = SNAKE_HEAD_RADIUS * 2
                  in if hhDist < hhThreshold * hhThreshold then
                       let prevHeadA = (case restA of [] \<Rightarrow> headA | p # _ \<Rightarrow> p);
                           prevHeadB = (case restB of [] \<Rightarrow> headB | p # _ \<Rightarrow> p);
                           dAtoPrevB = dist2 headA prevHeadB;
                           dBtoPrevA = dist2 headB prevHeadA;
                           colliderIsA = (dAtoPrevB \<le> dBtoPrevA);
                           colliderId = (if colliderIsA then idA else idB);
                           collider = (if colliderIsA then snakeA else snakeB);
                           targetId = (if colliderIsA then idB else idA)
                       in if \<not> active Shield collider
                          then Inr (Some [\<lparr>death_id = colliderId, cause = HeadCollision,
                                           killerId = Some targetId\<rparr>])
                          else Inr (Some [])
                     else Inr None))
      else Inr None)"

text \<open>Head of A against the body of B, from index \<^verbatim>\<open>COLLISION_GRACE_SEGMENTS\<close> on.\<close>

definition head_to_body :: "player_id \<Rightarrow> snake \<Rightarrow> player_id \<Rightarrow> snake \<Rightarrow> error + death list" where
  "head_to_body idA snakeA idB snakeB =
     (if \<not> active Ghost snakeA \<and> \<not> active Shield snakeA then
        (let collisionThreshold = SNAKE_HEAD_RADIUS + SNAKE_SEGMENT_RADIUS * (7 / 10);
             ct2 = collisionThreshold * collisionThreshold;
             body = drop COLLISION_GRACE_SEGMENTS (segments snakeB)
         in case segments snakeA of
              [] \<Rightarrow> (if body = [] then Inr [] else Inl TypeError)
            | headA # _ \<Rightarrow>
                if list_ex (\<lambda>seg. dist2 headA seg < ct2) body
                then Inr [\<lparr>death_id = idA, cause = Collision, killerId = Some idB\<rparr>]
                else Inr [])
      else Inr [])"

text \<open>The inner loop over \<open>j\<close>, on the entries numbered from 0.\<close>

fun cross_inner ::
  "nat \<Rightarrow> player_id \<Rightarrow> snake \<Rightarrow> (nat \<times> player_id \<times> snake) list \<Rightarrow> death list
     \<Rightarrow> error + death list" where
  "cross_inner i idA snakeA [] deaths = Inr deaths"
| "cross_inner i idA snakeA ((j, idB, snakeB) # rest) deaths =
     (if i = j then cross_inner i idA snakeA rest deaths
      else if \<not> alive snakeB then cross_inner i idA snakeA rest deaths
      else if deaths_some idA deaths then Inr deaths
      else
        (case head_to_head i j idA snakeA idB snakeB of
           Inl err \<Rightarrow> Inl err
         | Inr (Some ds) \<Rightarrow> cross_inner i idA snakeA rest (deaths @ ds)
         | Inr None \<Rightarrow>
             (case head_to_body idA snakeA idB snakeB of
                Inl err \<Rightarrow> Inl err
              | Inr ds \<Rightarrow> cross_inner i idA snakeA rest (deaths @ ds))))"

text \<open>The outer loop over \<open>i\<close>; \<open>entries\<close> is the whole numbered list.\<close>

fun cross_outer ::
  "(nat \<times> player_id \<times> snake) list \<Rightarrow> (nat \<times> player_id \<times> snake) list \<Rightarrow> death list
     \<Rightarrow> error + death list" where
  "cross_outer entries [] deaths = Inr deaths"
| "cross_outer entries ((i, idA, snakeA) # rest) deaths =
     (if \<not> alive snakeA \<or> deaths_some idA deaths then cross_outer entries rest deaths
      else
        (case cross_inner i idA snakeA entries deaths of
           Inl err \<Rightarrow> Inl err
         | Inr deaths1 \<Rightarrow> cross_outer entries rest deaths1))"

text \<open>The list \<^verbatim>\<open>deaths\<close> when both loops are done.\<close>

definition detect_deaths :: "engine \<Rightarrow> error + death list" where
  "detect_deaths e =
     (let entries = snakes e
      in case boundary_self e entries [] of
           Inl err \<Rightarrow> Inl err
         | Inr deaths \<Rightarrow>
             cross_outer (List.enumerate 0 entries) (List.enumerate 0 entries) deaths)"

subsection \<open>Death application\<close>

text \<open>The indices 0, 3, 6, ... of \<^verbatim>\<open>for (let i = 0; i < n; i += 3)\<close>.\<close>

fun every_third :: "'a list \<Rightarrow> 'a list" where
  "every_third (a # b # c # rest) = a # every_third rest"
| "every_third (a # _) = [a]"
| "every_third [] = []"

text \<open>Food dropped along the body, with a jitter from the generator.\<close>

fun drop_food :: "point list \<Rightarrow> engine \<Rightarrow> engine" where
  "drop_food [] e = e"
| "drop_food (seg # segs) e =
     (let fdx = px seg - centerX e;
          fdy = py seg - centerY e
      in if fdx * fdx + fdy * fdy < boundaryRadius e * boundaryRadius e then
           (let (r1, e1) = randFloat e;
                (r2, e2) = randFloat e1
            in drop_food segs
                 (e2\<lparr>food := food e2 @
                    [\<lparr>fx = px seg + (r1 - 1 / 2) * 8, fy = py seg + (r2 - 1 / 2) * 8,
                      ftype = Bonus, fvalue = 30\<rparr>]\<rparr>))
         else drop_food segs e)"

text \<open>\<^verbatim>\<open>if (killerId)\<close>: neither \<^verbatim>\<open>null\<close> nor the empty string.\<close>

definition credit_killer ::
  "player_id \<Rightarrow> snake \<Rightarrow> death_cause \<Rightarrow> player_id option \<Rightarrow> engine \<Rightarrow> engine" where
  "credit_killer playerId snake c kId e =
     (case kId of
        None \<Rightarrow> e
      | Some k \<Rightarrow>
          if k = [] then e
          else
            (case map_of (snakes e) k of
               None \<Rightarrow> e
             | Some killer \<Rightarrow>
                 if \<not> alive killer then e
                 else e\<lparr>snakes := AList.update k
                            (killer\<lparr>kills := kills killer + 1, score := score killer + 50\<rparr>)
                            (snakes e),
                         events := events e @
                            [KillEvent k (username killer) playerId (username snake) c]\<rparr>))"

definition applyDeath :: "player_id \<Rightarrow> death_cause \<Rightarrow> player_id option \<Rightarrow> engine \<Rightarrow> engine" where
  "applyDeath playerId c kId e =
     (case map_of (snakes e) playerId of
        None \<Rightarrow> e
      | Some snake0 \<Rightarrow>
          if \<not> alive snake0 then e
          else
            let snake = snake0\<lparr>alive := False, deathTick := Some (tick e),
                               deathCause := Some c, killedBy := kId\<rparr>;
                e1 = e\<lparr>snakes := AList.update playerId snake (snakes e)\<rparr>;
                e2 = drop_food (every_third (segments snake)) e1;
                e3 = credit_killer playerId snake c kId e2
            in e3\<lparr>events := events e3 @
                    [DeathEvent playerId (username snake) (color snake) c kId
                       (score snake) (snake_length snake) (tick e3)]\<rparr>)"

text \<open>Apply deaths, deduplicated by the set \<^verbatim>\<open>killed\<close>.\<close>

fun apply_deaths :: "death list \<Rightarrow> player_id set \<Rightarrow> engine \<Rightarrow> engine" where
  "apply_deaths [] killed e = e"
| "apply_deaths (d # ds) killed e =
     (if death_id d \<in> killed then apply_deaths ds killed e
      else apply_deaths ds (insert (death_id d) killed)
             (applyDeath (death_id d) (cause d) (killerId d) e))"

definition detectCollisions :: "engine \<Rightarrow> error + engine" where
  "detectCollisions e =
     (case detect_deaths e of
        Inl err \<Rightarrow> Inl err
      | Inr deaths \<Rightarrow> Inr (apply_deaths deaths {} e))"

subsection \<open>Food\<close>

text \<open>\<^verbatim>\<open>[...this.snakes.values()].filter((s) => s.alive).length\<close>\<close>

definition aliveCount :: "engine \<Rightarrow> nat" where
  "aliveCount e = length (filter (\<lambda>s. alive s) (map snd (snakes e)))"

definition desiredFoodCount :: "engine \<Rightarrow> nat" where
  "desiredFoodCount e = FOOD_BASE_COUNT + aliveCount e * FOOD_PER_PLAYER"

text \<open>\<^verbatim>\<open>_randomWorldPosition(radiusFraction)\<close>; \<^verbatim>\<open>radiusFraction || 0.85\<close>.\<close>

definition randomWorldPosition :: "real \<Rightarrow> engine \<Rightarrow> point \<times> engine" where
  "randomWorldPosition radiusFraction e =
     (let maxR = boundaryRadius e * (if radiusFraction = 0 then 85 / 100 else radiusFraction);
          (r1, e1) = randFloat e;
          a = r1 * TWO_PI;
          (r2, e2) = randFloat e1;
          r = sqrt r2 * maxR
      in (\<lparr>px = centerX e + cos a * r, py = centerY e + sin a * r\<rparr>, e2))"

text \<open>One round of the loop of \<^verbatim>\<open>_maintainFood\<close>.\<close>

definition add_food :: "engine \<Rightarrow> engine" where
  "add_food e =
     (let (pos, e1) = randomWorldPosition (9 / 10) e;
          (r, e2) = randFloat e1;
          isBonus = (r < BONUS_FOOD_CHANCE)
      in e2\<lparr>food := food e2 @
           [\<lparr>fx = px pos, fy = py pos,
             ftype = (if isBonus then Bonus else Normal),
             fvalue = (if isBonus then 30 else FOOD_SCORE)\<rparr>]\<rparr>)"

lemma food_randFloat: "food (snd (randFloat e)) = food e"
  by (simp add: randFloat_def Let_def)

lemma food_randomWorldPosition: "food (snd (randomWorldPosition f e)) = food e"
  by (simp add: randomWorldPosition_def Let_def split_def food_randFloat)

lemma length_food_add_food: "length (food (add_food e)) = Suc (length (food e))"
  by (simp add: add_food_def Let_def split_def food_randFloat food_randomWorldPosition)

function maintainFood_loop :: "nat \<Rightarrow> engine \<Rightarrow> engine" where
  "maintainFood_loop desired e =
     (if length (food e) < desired then maintainFood_loop desired (add_food e) else e)"
  by pat_completeness auto
termination
  by (relation "measure (\<lambda>(desired, e). desired - length (food e))")
     (auto simp: length_food_add_food)

declare maintainFood_loop.simps [simp del]

definition maintainFood :: "engine \<Rightarrow> engine" where
  "maintainFood e = maintainFood_loop (desiredFoodCount e) e"

text \<open>
  One food item of the downward loop of \<^verbatim>\<open>_checkFood\<close>: the state is the snake,
  the events pushed so far and the food kept (the items of a higher index).
\<close>

definition eat_one ::
  "point \<Rightarrow> food_item \<Rightarrow> snake \<times> event list \<times> food_item list
     \<Rightarrow> snake \<times> event list \<times> food_item list" where
  "eat_one head f st =
     (case st of (snake, evs, kept) \<Rightarrow>
        let fdx = px head - fx f;
            fdy = py head - fy f;
            pickupRadius = SNAKE_HEAD_RADIUS + FOOD_RADIUS;
            pr2 = pickupRadius * pickupRadius
        in if fdx * fdx + fdy * fdy < pr2 then
             (let growth = (if ftype f = Bonus then GROW_PER_FOOD + 2 else GROW_PER_FOOD);
                  points = (if fvalue f = 0 then FOOD_SCORE else fvalue f)
              in (snake\<lparr>growPending := growPending snake + growth,
                        score := score snake + points\<rparr>,
                  evs @ [EatEvent (snake_id snake) (username snake) (fx f) (fy f) (ftype f)
                           growth points],
                  kept))
           else (snake, evs, f # kept))"

definition checkFood_snake :: "player_id \<Rightarrow> engine \<Rightarrow> error + engine" where
  "checkFood_snake k e =
     (case map_of (snakes e) k of
        None \<Rightarrow> Inr e
      | Some snake \<Rightarrow>
          if \<not> alive snake then Inr e
          else
            (case segments snake of
               [] \<Rightarrow> (if food e = [] then Inr e else Inl TypeError)
             | head # _ \<Rightarrow>
                 (case foldr (eat_one head) (food e) (snake, [], []) of
                    (snake1, evs, kept) \<Rightarrow>
                      Inr (e\<lparr>snakes := AList.update k snake1 (snakes e),
                             events := events e @ evs,
                             food := kept\<rparr>))))"

definition checkFood :: "engine \<Rightarrow> error + engine" where
  "checkFood e = for_each checkFood_snake (map fst (snakes e)) e"

subsection \<open>Power-ups\<close>

fun powerup_duration :: "powerup_type \<Rightarrow> int" where
  "powerup_duration Speed = 80"
| "powerup_duration Shield = 60"
| "powerup_duration Ghost = 50"

text \<open>The downward scan with \<^verbatim>\<open>break\<close>: the last item that satisfies \<open>P\<close>, with
  the items before and after it.\<close>

fun find_last :: "('a \<Rightarrow> bool) \<Rightarrow> 'a list \<Rightarrow> ('a list \<times> 'a \<times> 'a list) option" where
  "find_last P [] = None"
| "find_last P (x # xs) =
     (case find_last P xs of
        Some (pre, y, post) \<Rightarrow> Some (x # pre, y, post)
      | None \<Rightarrow> if P x then Some ([], x, xs) else None)"

text \<open>The effect of a pickup on the snake: the timed buff (when the type is known) and
  the score.\<close>

definition grant_powerup :: "powerup_item \<Rightarrow> snake \<Rightarrow> snake" where
  "grant_powerup pu snake =
     (let s1 = (case pu_type pu of
                  None \<Rightarrow> snake
                | Some t \<Rightarrow>
                    snake\<lparr>activePowerups :=
                      AList.update t (powerup_duration t) (activePowerups snake)\<rparr>)
      in s1\<lparr>score := score s1 + 15\<rparr>)"

definition checkPowerupPickup_snake :: "player_id \<Rightarrow> engine \<Rightarrow> error + engine" where
  "checkPowerupPickup_snake k e =
     (case map_of (snakes e) k of
        None \<Rightarrow> Inr e
      | Some snake \<Rightarrow>
          if \<not> alive snake then Inr e
          else
            (case segments snake of
               [] \<Rightarrow> (if powerups e = [] then Inr e else Inl TypeError)
             | head # _ \<Rightarrow>
                 let pickupRadius = SNAKE_HEAD_RADIUS + 12;
                     pr2 = pickupRadius * pickupRadius
                 in (case find_last
                            (\<lambda>pu. (px head - pu_x pu) * (px head - pu_x pu) +
                                  (py head - pu_y pu) * (py head - pu_y pu) < pr2)
                            (powerups e) of
                       None \<Rightarrow> Inr e
                     | Some (pre, pu, post) \<Rightarrow>
                         Inr (e\<lparr>snakes := AList.update k (grant_powerup pu snake) (snakes e),
                                events := events e @
                                  [PowerupPickupEvent (snake_id snake) (username snake) (pu_type pu)],
                                powerups := pre @ post\<rparr>))))"

definition checkPowerupPickup :: "engine \<Rightarrow> error + engine" where
  "checkPowerupPickup e = for_each checkPowerupPickup_snake (map fst (snakes e)) e"

text \<open>The loop over \<^verbatim>\<open>Object.keys(snake.activePowerups)\<close> for one snake.\<close>

fun tick_effects :: "powerup_type list \<Rightarrow> snake \<Rightarrow> event list \<Rightarrow> snake \<times> event list" where
  "tick_effects [] snake evs = (snake, evs)"
| "tick_effects (t # ts) snake evs =
     (case map_of (activePowerups snake) t of
        None \<Rightarrow> tick_effects ts snake evs
      | Some n \<Rightarrow>
          if n - 1 \<le> 0
          then tick_effects ts
                 (snake\<lparr>activePowerups := AList.delete t (activePowerups snake)\<rparr>)
                 (evs @ [PowerupExpiredEvent (snake_id snake) t])
          else tick_effects ts
                 (snake\<lparr>activePowerups := AList.update t (n - 1) (activePowerups snake)\<rparr>)
                 evs)"

definition tickActivePowerups_snake :: "player_id \<Rightarrow> engine \<Rightarrow> error + engine" where
  "tickActivePowerups_snake k e =
     (case map_of (snakes e) k of
        None \<Rightarrow> Inr e
      | Some snake \<Rightarrow>
          if \<not> alive snake then Inr e
          else
            (case tick_effects (remdups (map fst (activePowerups snake))) snake [] of
               (snake1, evs) \<Rightarrow>
                 Inr (e\<lparr>snakes := AList.update k snake1 (snakes e),
                        events := events e @ evs\<rparr>)))"

text \<open>One field power-up of the downward despawn loop.\<close>

definition despawn_one ::
  "nat \<Rightarrow> powerup_item \<Rightarrow> powerup_item list \<times> event list \<Rightarrow> powerup_item list \<times> event list" where
  "despawn_one tk p st =
     (case st of (kept, evs) \<Rightarrow>
        if int tk - int (pu_spawnTick p) > POWERUP_DESPAWN_TICKS
        then (kept, evs @ [PowerupDespawnEvent (pu_id p)])
        else (p # kept, evs))"

definition despawn_powerups :: "engine \<Rightarrow> engine" where
  "despawn_powerups e =
     (case foldr (despawn_one (tick e)) (powerups e) ([], []) of
        (kept, evs) \<Rightarrow> e\<lparr>powerups := kept, events := events e @ evs\<rparr>)"

definition tickActivePowerups :: "engine \<Rightarrow> error + engine" where
  "tickActivePowerups e =
     (case for_each tickActivePowerups_snake (map fst (snakes e)) e of
        Inl err \<Rightarrow> Inl err
      | Inr e1 \<Rightarrow> Inr (despawn_powerups e1))"

text \<open>\<^verbatim>\<open>types[i]\<close> for \<^verbatim>\<open>types = Object.keys(POWERUP_TYPES)\<close>.\<close>

definition powerup_type_at :: "int \<Rightarrow> powerup_type option" where
  "powerup_type_at i =
     (if i = 0 then Some Speed else if i = 1 then Some Shield
      else if i = 2 then Some Ghost else None)"

definition maybeSpawnPowerup :: "engine \<Rightarrow> engine" where
  "maybeSpawnPowerup e =
     (if aliveCount e < 1 then e
      else if length (powerups e) \<ge> POWERUP_MAX then e
      else
        (case randFloat e of
           (chance, e1) \<Rightarrow>
             if chance > POWERUP_SPAWN_CHANCE then e1
             else
               (case randomWorldPosition (75 / 100) e1 of
                  (pos, e2) \<Rightarrow>
                    (case randInt 0 2 e2 of
                       (ti, e3) \<Rightarrow>
                         (case randInt 0 9999 e3 of
                            (n, e4) \<Rightarrow>
                              let powerup = \<lparr>pu_id = (tick e4, n), pu_x = px pos, pu_y = py pos,
                                              pu_type = powerup_type_at ti,
                                              pu_spawnTick = tick e4\<rparr>
                              in e4\<lparr>powerups := powerups e4 @ [powerup],
                                    events := events e4 @ [PowerupSpawnEvent powerup]\<rparr>)))))"

subsection \<open>The main tick\<close>

text \<open>\<^verbatim>\<open>update()\<close>: the new engine and the returned \<^verbatim>\<open>{ tick, events }\<close>.\<close>

definition update :: "engine \<Rightarrow> error + engine \<times> nat \<times> event list" where
  "update e0 =
     (let e = e0\<lparr>tick := tick e0 + 1, events := []\<rparr>
      in case moveSnakes e of
           Inl err \<Rightarrow> Inl err
         | Inr e1 \<Rightarrow>
             (case detectCollisions e1 of
                Inl err \<Rightarrow> Inl err
              | Inr e2 \<Rightarrow>
                  (case checkFood e2 of
                     Inl err \<Rightarrow> Inl err
                   | Inr e3 \<Rightarrow>
                       (case checkPowerupPickup e3 of
                          Inl err \<Rightarrow> Inl err
                        | Inr e4 \<Rightarrow>
                            (case tickActivePowerups e4 of
                               Inl err \<Rightarrow> Inl err
                             | Inr e5 \<Rightarrow>
                                 let e6 = maintainFood e5;
                                     e7 = maybeSpawnPowerup e6
                                 in Inr (e7, tick e7, events e7))))))"

text \<open>A sequence of \<open>n\<close> calls of update, collecting the returned tick values.\<close>

fun updates :: "nat \<Rightarrow> engine \<Rightarrow> error + engine \<times> nat list" where
  "updates 0 e = Inr (e, [])"
| "updates (Suc n) e =
     (case update e of
        Inl err \<Rightarrow> Inl err
      | Inr (e1, t, evs) \<Rightarrow>
          (case updates n e1 of
             Inl err \<Rightarrow> Inl err
           | Inr (e2, ts) \<Rightarrow> Inr (e2, t # ts)))"

subsection \<open>Query helpers\<close>

text \<open>\<^verbatim>\<open>getAliveCount()\<close>: a counting loop over the values.\<close>

definition getAliveCount :: "engine \<Rightarrow> nat" where
  "getAliveCount e = fold (\<lambda>s count. if alive s then count + 1 else count) (map snd (snakes e)) 0"

text \<open>
  \<^verbatim>\<open>Array.prototype.sort(cmp)\<close> is stable; for a comparator that is a consistent
  ordering its result is the one stable sorted arrangement, which insertion from the right
  computes: \<open>x\<close> goes before the first \<open>y\<close> with \<open>cmp x y \<le> 0\<close>.
\<close>

fun insort_cmp :: "('a \<Rightarrow> 'a \<Rightarrow> int) \<Rightarrow> 'a \<Rightarrow> 'a list \<Rightarrow> 'a list" where
  "insort_cmp cmp x [] = [x]"
| "insort_cmp cmp x (y # ys) =
     (if cmp x y \<le> 0 then x # y # ys else y # insort_cmp cmp x ys)"

definition js_sort :: "('a \<Rightarrow> 'a \<Rightarrow> int) \<Rightarrow> 'a list \<Rightarrow> 'a list" where
  "js_sort cmp xs = foldr (insort_cmp cmp) xs []"

text \<open>\<^verbatim>\<open>b.score - a.score || b.length - a.length\<close>\<close>

definition cmp_alive :: "snake \<Rightarrow> snake \<Rightarrow> int" where
  "cmp_alive a b =
     (if score b - score a \<noteq> 0 then score b - score a
      else int (snake_length b) - int (snake_length a))"

text \<open>\<^verbatim>\<open>(b.deathTick || 0) - (a.deathTick || 0)\<close>\<close>

definition tick_or_0 :: "nat option \<Rightarrow> int" where
  "tick_or_0 t = (case t of None \<Rightarrow> 0 | Some n \<Rightarrow> int n)"

definition cmp_dead :: "snake \<Rightarrow> snake \<Rightarrow> int" where
  "cmp_dead a b = tick_or_0 (deathTick b) - tick_or_0 (deathTick a)"

text \<open>The comparator of \<^verbatim>\<open>getStandings()\<close>.\<close>

definition cmp_standing :: "snake \<Rightarrow> snake \<Rightarrow> int" where
  "cmp_standing a b =
     (if alive a \<noteq> alive b then (if alive a then - 1 else 1)
      else if score b \<noteq> score a then score b - score a
      else int (snake_length b) - int (snake_length a))"

text \<open>A row of the leaderboard or of the standings.\<close>

record board_entry =
  b_rank :: nat
  b_id :: player_id
  b_username :: string
  b_color :: string
  b_pattern :: string
  b_score :: int
  b_length :: nat
  b_kills :: nat
  b_alive :: bool
  b_deathTick :: "nat option"
  b_deathCause :: "death_cause option"
  b_killedBy :: "player_id option"
  b_survivalTicks :: "int option"

definition alive_entry :: "nat \<times> snake \<Rightarrow> board_entry" where
  "alive_entry p =
     (case p of (i, s) \<Rightarrow>
        \<lparr>b_rank = i + 1, b_id = snake_id s, b_username = username s, b_color = color s,
         b_pattern = pattern s, b_score = score s, b_length = snake_length s,
         b_kills = kills s, b_alive = True, b_deathTick = None, b_deathCause = None,
         b_killedBy = None, b_survivalTicks = None\<rparr>)"

definition dead_entry :: "nat \<Rightarrow> nat \<times> snake \<Rightarrow> board_entry" where
  "dead_entry nalive p =
     (case p of (i, s) \<Rightarrow>
        \<lparr>b_rank = nalive + i + 1, b_id = snake_id s, b_username = username s,
         b_color = color s, b_pattern = pattern s, b_score = score s,
         b_length = snake_length s, b_kills = kills s, b_alive = False,
         b_deathTick = deathTick s, b_deathCause = deathCause s, b_killedBy = killedBy s,
         b_survivalTicks = None\<rparr>)"

record leaderboard =
  lb_alive :: "board_entry list"
  lb_dead :: "board_entry list"
  lb_total :: nat
  lb_aliveCount :: nat

definition getLeaderboard :: "engine \<Rightarrow> leaderboard" where
  "getLeaderboard e =
     (let all = map snd (snakes e);
          alv = map alive_entry
                  (List.enumerate 0 (js_sort cmp_alive (filter (\<lambda>s. alive s) all)));
          dead = map (dead_entry (length alv))
                  (List.enumerate 0
                     (js_sort cmp_dead (filter (\<lambda>s. \<not> alive s \<and> deathTick s \<noteq> None) all)))
      in \<lparr>lb_alive = alv, lb_dead = dead, lb_total = length all, lb_aliveCount = length alv\<rparr>)"

text \<open>\<^verbatim>\<open>(s.deathTick || this.tick) - s.spawnTick\<close>\<close>

definition survivalTicks :: "nat \<Rightarrow> snake \<Rightarrow> int" where
  "survivalTicks tk s =
     (if alive s then int tk - int (spawnTick s)
      else (case deathTick s of
              None \<Rightarrow> int tk
            | Some d \<Rightarrow> if d = 0 then int tk else int d) - int (spawnTick s))"

definition standing_entry :: "nat \<Rightarrow> nat \<times> snake \<Rightarrow> board_entry" where
  "standing_entry tk p =
     (case p of (i, s) \<Rightarrow>
        \<lparr>b_rank = i + 1, b_id = snake_id s, b_username = username s, b_color = color s,
         b_pattern = pattern s, b_score = score s, b_length = snake_length s,
         b_kills = kills s, b_alive = alive s, b_deathTick = deathTick s,
         b_deathCause = deathCause s, b_killedBy = None,
         b_survivalTicks = Some (survivalTicks tk s)\<rparr>)"

definition getStandings :: "engine \<Rightarrow> board_entry list" where
  "getStandings e =
     map (standing_entry (tick e))
       (List.enumerate 0 (js_sort cmp_standing (map snd (snakes e))))"

subsection \<open>Room: players and messages\<close>

datatype room_state = WAITING | COUNTDOWN | PLAYING | ENDED

text \<open>\<^verbatim>\<open>opts.mode\<close> is any string; a mode outside \<^verbatim>\<open>GAME_MODES\<close> is \<open>OTHER_MODE\<close>.\<close>

datatype game_mode = LAST_STANDING | TIMED | FREE_PLAY | OTHER_MODE

datatype end_reason = Winner | Draw | GameOver | AllDead | TimeUp

text \<open>
  The socket of a player as \<^verbatim>\<open>Player.send\<close> sees it: open
  (\<^verbatim>\<open>readyState === 1\<close>), open but \<^verbatim>\<open>ws.send\<close> throws, or absent / not open.
\<close>

datatype socket = SocketOpen | SocketThrows | SocketClosed

record player =
  p_id :: player_id
  p_username :: string
  p_color :: string
  p_roomId :: "string option"
  p_isRoomCreator :: bool
  p_alive :: bool
  p_score :: int
  p_kills :: nat
  p_spectating :: bool
  p_connected :: bool
  p_ws :: socket

record winner_summary =
  w_id :: player_id
  w_username :: string
  w_score :: int
  w_color :: string

record game_over_data =
  g_reason :: end_reason
  g_standings :: "board_entry list"
  g_winner :: "winner_summary option"
  g_duration :: int
  g_round :: nat

text \<open>
  The messages of the functions modelled here. \<open>RoomJoinedMsg\<close> carries the player id
  and \<^verbatim>\<open>asSpectator\<close>; \<open>GameStateMsg\<close> carries the engine whose
  \<^verbatim>\<open>getFullState()\<close> and \<^verbatim>\<open>getLeaderboard()\<close> are sent;
  \<open>PlayerJoinedMsg\<close> carries the player id and \<^verbatim>\<open>playerCount\<close>. The public view of
  the room and of the player inside a message is left out.
\<close>

datatype message =
    RoomJoinedMsg player_id bool
  | GameStateMsg engine
  | SpectatorJoinedMsg player_id
  | PlayerJoinedMsg player_id nat
  | GameOverMsg game_over_data

text \<open>
  A room. \<open>tickInterval\<close> and \<open>timedGameTimeout\<close> say whether the timer is armed;
  \<open>outbox\<close> lists what the sockets were given, in order; \<open>onGameOver\<close> says whether
  a callback is installed and \<open>gameOverCalls\<close> lists its invocations.
\<close>

record room =
  room_id :: string
  state :: room_state
  maxPlayers :: int
  mode :: game_mode
  creatorId :: "player_id option"
  players :: "(player_id \<times> player) list"
  room_engine :: "engine option"
  tickInterval :: bool
  timedGameTimeout :: bool
  startedAt :: "int option"
  endedAt :: "int option"
  roundNumber :: nat
  outbox :: "(player_id \<times> message) list"
  onGameOver :: bool
  gameOverCalls :: "game_over_data list"

text \<open>\<^verbatim>\<open>Player.send(data)\<close> on the player stored under \<open>k\<close>.\<close>

definition send_to :: "player_id \<Rightarrow> message \<Rightarrow> room \<Rightarrow> room" where
  "send_to k msg r =
     (case map_of (players r) k of
        None \<Rightarrow> r
      | Some p \<Rightarrow>
          (case p_ws p of
             SocketOpen \<Rightarrow> r\<lparr>outbox := outbox r @ [(k, msg)]\<rparr>
           | SocketThrows \<Rightarrow> r\<lparr>players := AList.update k (p\<lparr>p_connected := False\<rparr>) (players r)\<rparr>
           | SocketClosed \<Rightarrow> r))"

text \<open>\<^verbatim>\<open>broadcast(data, excludeId)\<close>\<close>

definition broadcast :: "message \<Rightarrow> player_id option \<Rightarrow> room \<Rightarrow> room" where
  "broadcast msg excludeId r =
     fold (\<lambda>k r1. if Some k \<noteq> excludeId then send_to k msg r1 else r1) (map fst (players r)) r"

definition isFull :: "room \<Rightarrow> bool" where
  "isFull r = (int (length (players r)) \<ge> maxPlayers r)"

datatype add_result = AddError string | AddSuccess bool

definition addPlayer :: "player \<Rightarrow> room \<Rightarrow> add_result \<times> room" where
  "addPlayer pl r =
     (if state r = PLAYING \<or> state r = COUNTDOWN then
        (let p1 = pl\<lparr>p_roomId := Some (room_id r), p_spectating := True\<rparr>;
             r1 = r\<lparr>players := AList.update (p_id pl) p1 (players r)\<rparr>;
             r2 = send_to (p_id pl) (RoomJoinedMsg (p_id pl) True) r1;
             r3 = (case room_engine r2 of
                     None \<Rightarrow> r2
                   | Some eng \<Rightarrow> send_to (p_id pl) (GameStateMsg eng) r2);
             r4 = broadcast (SpectatorJoinedMsg (p_id pl)) (Some (p_id pl)) r3
         in (AddSuccess True, r4))
      else if isFull r then (AddError ''Room is full'', r)
      else
        (let p1 = pl\<lparr>p_roomId := Some (room_id r), p_spectating := False,
                      p_isRoomCreator := (Some (p_id pl) = creatorId r)\<rparr>;
             r1 = r\<lparr>players := AList.update (p_id pl) p1 (players r)\<rparr>;
             r2 = send_to (p_id pl) (RoomJoinedMsg (p_id pl) False) r1;
             r3 = broadcast (PlayerJoinedMsg (p_id pl) (length (players r2))) (Some (p_id pl)) r2
         in (AddSuccess False, r3)))"

subsection \<open>Room: the end of a game\<close>

text \<open>
  The object \<^verbatim>\<open>gameOverData\<close> that \<^verbatim>\<open>_endGame(reason)\<close> builds; \<open>now2\<close> is
  the reading of \<^verbatim>\<open>Date.now()\<close> for the duration.
\<close>

definition gameOverData :: "end_reason \<Rightarrow> int \<Rightarrow> room \<Rightarrow> game_over_data" where
  "gameOverData reason now2 r =
     (let standings = (case room_engine r of None \<Rightarrow> [] | Some eng \<Rightarrow> getStandings eng);
          winner = (case standings of [] \<Rightarrow> None | w # _ \<Rightarrow> Some w);
          duration = (case startedAt r of
                        None \<Rightarrow> 0
                      | Some t \<Rightarrow> if t = 0 then 0 else \<lfloor>real_of_int (now2 - t) / 1000\<rfloor>)
      in \<lparr>g_reason = reason, g_standings = standings,
          g_winner = (case winner of
                        None \<Rightarrow> None
                      | Some w \<Rightarrow> Some \<lparr>w_id = b_id w, w_username = b_username w,
                                        w_score = b_score w, w_color = b_color w\<rparr>),
          g_duration = duration, g_round = roundNumber r\<rparr>)"

text \<open>
  \<^verbatim>\<open>_endGame(reason)\<close>; \<open>now1\<close> is the reading of \<^verbatim>\<open>Date.now()\<close> for
  \<^verbatim>\<open>endedAt\<close>. An exception of the callback is caught, so the callback only shows as
  an entry of \<open>gameOverCalls\<close>.
\<close>

definition endGame :: "end_reason \<Rightarrow> int \<Rightarrow> int \<Rightarrow> room \<Rightarrow> room" where
  "endGame reason now1 now2 r =
     (if state r = ENDED then r
      else
        let r1 = r\<lparr>state := ENDED, endedAt := Some now1,
                   tickInterval := False, timedGameTimeout := False\<rparr>;
            d = gameOverData reason now2 r1;
            r2 = broadcast (GameOverMsg d) None r1;
            r3 = (if onGameOver r2 then r2\<lparr>gameOverCalls := gameOverCalls r2 @ [d]\<rparr> else r2)
        in r3\<lparr>players := map (\<lambda>(k, p). (k, p\<lparr>p_alive := False, p_spectating := False\<rparr>))
                             (players r3)\<rparr>)"

text \<open>\<^verbatim>\<open>_checkGameEnd()\<close>\<close>

definition checkGameEnd :: "int \<Rightarrow> int \<Rightarrow> room \<Rightarrow> room" where
  "checkGameEnd now1 now2 r =
     (if state r \<noteq> PLAYING then r
      else
        (case room_engine r of
           None \<Rightarrow> r
         | Some eng \<Rightarrow>
             let alv = getAliveCount eng;
                 total = length (snakes eng);
                 decision =
                   (case mode r of
                      LAST_STANDING \<Rightarrow>
                        if total \<ge> 2 \<and> alv \<le> 1
                        then Some (if alv = 1 then Winner else Draw)
                        else if total = 1 \<and> alv = 0 then Some GameOver
                        else None
                    | FREE_PLAY \<Rightarrow>
                        let connAlive = length (filter (\<lambda>p. p_connected p \<and> p_alive p)
                                                  (map snd (players r)))
                        in if connAlive = 0 \<and> total > 0 then Some AllDead else None
                    | TIMED \<Rightarrow>
                        if total > 0 \<and> alv \<le> 1
                        then Some (if alv = 1 then Winner else AllDead)
                        else None
                    | OTHER_MODE \<Rightarrow> None)
             in (case decision of
                   None \<Rightarrow> r
                 | Some reason \<Rightarrow> endGame reason now1 now2 r)))"

subsection \<open>Concrete states\<close>

text \<open>The object literal of \<^verbatim>\<open>spawnSnake\<close> for given segments, heading 0, at tick 0.\<close>

definition snake_literal :: "player_id \<Rightarrow> point list \<Rightarrow> snake" where
  "snake_literal k segs =
     \<lparr>snake_id = k, username = k, pattern = ''classic'', color = ''#3B82F6'',
      segments = segs, angle = 0, targetAngle = 0, boosting = False, alive = True,
      score = 0, kills = 0, snake_length = INITIAL_SNAKE_LENGTH, growPending = 0,
      activePowerups = [], deathTick = None, deathCause = None, killedBy = None,
      spawnTick = 0\<rparr>"

text \<open>A body of \<open>n\<close> points trailing to the left of \<open>(x, y)\<close>, spaced by the base speed.\<close>

definition straight_body :: "real \<Rightarrow> real \<Rightarrow> nat \<Rightarrow> point list" where
  "straight_body x y n = map (\<lambda>i. \<lparr>px = x - real i * SNAKE_SPEED, py = y\<rparr>) [0..<n]"

definition engine_one :: engine where
  "engine_one =
     (new_engine 2000 1)\<lparr>snakes := [(''a'', snake_literal ''a'' (straight_body 1000 1000 10))]\<rparr>"

text \<open>The fields of a connected \<^verbatim>\<open>new Player(...)\<close> with an open socket.\<close>

definition player_literal :: "player_id \<Rightarrow> player" where
  "player_literal k =
     \<lparr>p_id = k, p_username = k, p_color = ''#3A4DFF'', p_roomId = None,
      p_isRoomCreator = False, p_alive = False, p_score = 0, p_kills = 0,
      p_spectating = False, p_connected = True, p_ws = SocketOpen\<rparr>"

text \<open>The fields of \<^verbatim>\<open>new Room(roomId, { maxPlayers, mode })\<close>.\<close>

definition room_literal :: "string \<Rightarrow> int \<Rightarrow> game_mode \<Rightarrow> room" where
  "room_literal rid mx md =
     \<lparr>room_id = rid, state = WAITING, maxPlayers = min mx 50, mode = md, creatorId = None,
      players = [], room_engine = None, tickInterval = False, timedGameTimeout = False,
      startedAt = None, endedAt = None, roundNumber = 0, outbox = [], onGameOver = False,
      gameOverCalls = []\<rparr>"

text \<open>A room that is playing with one member and capacity one.\<close>

definition room_full_playing :: room where
  "room_full_playing =
     (room_literal ''R1'' 1 LAST_STANDING)
       \<lparr>state := PLAYING, players := [(''a'', player_literal ''a'')]\<rparr>"

text \<open>Three snakes at tick 10, two of them dead; a playing last-standing room on it.\<close>

definition engine_three :: engine where
  "engine_three =
     (new_engine 2000 1)
       \<lparr>snakes := [(''a'', (snake_literal ''a'' [])\<lparr>alive := False, score := 100,
                              deathTick := Some 10, deathCause := Some Wall\<rparr>),
                   (''b'', (snake_literal ''b'' [])\<lparr>alive := False, score := 70,
                              deathTick := Some 10, deathCause := Some Self\<rparr>),
                   (''c'', snake_literal ''c'' [\<lparr>px = 1000, py = 1000\<rparr>])],
        tick := 10\<rparr>"

definition room_three :: room where
  "room_three =
     (room_literal ''R3'' 6 LAST_STANDING)
       \<lparr>state := PLAYING, players := [(''a'', player_literal ''a'')],
        room_engine := Some engine_three, onGameOver := True\<rparr>"

text \<open>Two snakes at tick 10, both alive; a playing last-standing room whose engine has lost
  snake b to \<^verbatim>\<open>removeSnake\<close>, as when the player of b leaves the room.\<close>

definition engine_two :: engine where
  "engine_two =
     (new_engine 2000 1)
       \<lparr>snakes := [(''a'', snake_literal ''a'' [\<lparr>px = 1000, py = 1000\<rparr>]),
                   (''b'', snake_literal ''b'' [\<lparr>px = 1200, py = 1000\<rparr>])],
        tick := 10\<rparr>"

definition room_after_leave :: room where
  "room_after_leave =
     (room_literal ''R2'' 6 LAST_STANDING)
       \<lparr>state := PLAYING, players := [(''a'', player_literal ''a'')],
        room_engine := Some (removeSnake ''b'' engine_two), onGameOver := True\<rparr>"

text \<open>Whether the player stored under \<open>k\<close> has an open socket.\<close>

definition socket_open :: "room \<Rightarrow> player_id \<Rightarrow> bool" where
  "socket_open r k =
     (case map_of (players r) k of None \<Rightarrow> False | Some p \<Rightarrow> p_ws p = SocketOpen)"

text \<open>Descending by score, then by length.\<close>

definition by_score_length :: "board_entry \<Rightarrow> board_entry \<Rightarrow> bool" where
  "by_score_length a b =
     (b_score a > b_score b \<or> (b_score a = b_score b \<and> b_length a \<ge> b_length b))"

text \<open>Descending by score, then by length, on the snakes themselves.\<close>

definition snake_order :: "snake \<Rightarrow> snake \<Rightarrow> bool" where
  "snake_order a b =
     (score a > score b \<or> (score a = score b \<and> snake_length a \<ge> snake_length b))"

text \<open>The row shows the fields of the snake.\<close>

definition row_of :: "board_entry \<Rightarrow> snake \<Rightarrow> bool" where
  "row_of r s =
     (b_id r = snake_id s \<and> b_username r = username s \<and> b_color r = color s \<and>
      b_pattern r = pattern s \<and> b_score r = score s \<and> b_length r = snake_length s \<and>
      b_kills r = kills s \<and> b_alive r = alive s)"

text \<open>Five snakes at tick 10: three alive, two dead, the highest score on a dead one.\<close>

definition engine_five :: engine where
  "engine_five =
     (new_engine 2000 1)
       \<lparr>snakes := [(''a'', (snake_literal ''a'' [])\<lparr>score := 10, snake_length := 12\<rparr>),
                   (''b'', (snake_literal ''b'' [])\<lparr>alive := False, score := 500,
                              deathTick := Some 7, deathCause := Some Wall\<rparr>),
                   (''c'', (snake_literal ''c'' [])\<lparr>score := 10, snake_length := 15\<rparr>),
                   (''d'', (snake_literal ''d'' [])\<lparr>alive := False, score := 0,
                              deathTick := Some 9, deathCause := Some Self\<rparr>),
                   (''e'', (snake_literal ''e'' [])\<lparr>score := 40\<rparr>)],
        tick := 10\<rparr>"

text \<open>Fields of the snake stored under a key, when there is one.\<close>

definition kills_of :: "player_id \<Rightarrow> engine \<Rightarrow> nat option" where
  "kills_of k e = map_option kills (map_of (snakes e) k)"

definition score_of :: "player_id \<Rightarrow> engine \<Rightarrow> int option" where
  "score_of k e = map_option score (map_of (snakes e) k)"

definition alive_of :: "player_id \<Rightarrow> engine \<Rightarrow> bool option" where
  "alive_of k e = map_option alive (map_of (snakes e) k)"


definition killer_of :: "player_id \<Rightarrow> engine \<Rightarrow> player_id option option" where
  "killer_of k e = map_option killedBy (map_of (snakes e) k)"

text \<open>Snake a inside the boundary runs head-on into snake b, whose head is outside it.\<close>

definition engine_wall_headon :: engine where
  "engine_wall_headon =
     (new_engine 2000 1)
       \<lparr>snakes := [(''a'', snake_literal ''a'' [\<lparr>px = 1940, py = 1000\<rparr>, \<lparr>px = 1937, py = 1000\<rparr>]),
                   (''b'', snake_literal ''b'' [\<lparr>px = 1951, py = 1000\<rparr>, \<lparr>px = 1948, py = 1000\<rparr>])],
        tick := 7\<rparr>"

text \<open>A boosting snake of length 20 with 20 segments, heading right, one tick before a boost cost tick.\<close>

definition engine_boost :: engine where
  "engine_boost =
     (new_engine 2000 1)
       \<lparr>snakes := [(''a'', (snake_literal ''a'' (straight_body 1000 1000 20))
                            \<lparr>snake_length := 20, boosting := True\<rparr>)],
        tick := 4\<rparr>"

text \<open>That snake after the move of tick 5: a new head, the tail trimmed to 20 segments, and the length reduced to 19 by the boost cost.\<close>

definition boost_moved :: snake where
  "boost_moved =
     (snake_literal ''a'' [\<lparr>px = 2011 / 2, py = 1000\<rparr>, \<lparr>px = 1000, py = 1000\<rparr>, \<lparr>px = 997, py = 1000\<rparr>, \<lparr>px = 994, py = 1000\<rparr>, \<lparr>px = 991, py = 1000\<rparr>, \<lparr>px = 988, py = 1000\<rparr>, \<lparr>px = 985, py = 1000\<rparr>, \<lparr>px = 982, py = 1000\<rparr>, \<lparr>px = 979, py = 1000\<rparr>, \<lparr>px = 976, py = 1000\<rparr>, \<lparr>px = 973, py = 1000\<rparr>, \<lparr>px = 970, py = 1000\<rparr>, \<lparr>px = 967, py = 1000\<rparr>, \<lparr>px = 964, py = 1000\<rparr>, \<lparr>px = 961, py = 1000\<rparr>, \<lparr>px = 958, py = 1000\<rparr>, \<lparr>px = 955, py = 1000\<rparr>, \<lparr>px = 952, py = 1000\<rparr>, \<lparr>px = 949, py = 1000\<rparr>, \<lparr>px = 946, py = 1000\<rparr>])
       \<lparr>snake_length := 19, boosting := True\<rparr>"

text \<open>The engine after the move of tick 5, with the food dropped at the tail.\<close>

definition boost_after_move :: engine where
  "boost_after_move =
     (new_engine 2000 1)
       \<lparr>snakes := [(''a'', boost_moved)],
        food := [\<lparr>fx = 946, fy = 1000, ftype = Normal, fvalue = FOOD_SCORE\<rparr>],
        tick := 5\<rparr>"

text \<open>The number of segments, and the target length + growPending, of the snake stored under a key.\<close>

definition segs_of :: "player_id \<Rightarrow> engine \<Rightarrow> nat option" where
  "segs_of k e = map_option (\<lambda>s. length (segments s)) (map_of (snakes e) k)"

definition target_of :: "player_id \<Rightarrow> engine \<Rightarrow> nat option" where
  "target_of k e = map_option (\<lambda>s. snake_length s + growPending s) (map_of (snakes e) k)"

text \<open>A reading of the engine that update returns.\<close>

definition after_update :: "(engine \<Rightarrow> 'a) \<Rightarrow> engine \<Rightarrow> error + 'a" where
  "after_update f e = map_sum id (\<lambda>r. f (fst r)) (update e)"

text \<open>The engine with one snake after \<^verbatim>\<open>queueInput('a', 1e17, false)\<close>.\<close>

definition engine_big :: engine where
  "engine_big = queueInput ''a'' (JNum 100000000000000000) False engine_one"



subsection \<open>Relations and invariants used in the properties\<close>

definition same_world :: "engine \<Rightarrow> engine \<Rightarrow> bool" where
  "same_world e e' =
     (tick e' = tick e \<and> centerX e' = centerX e \<and> centerY e' = centerY e \<and>
      boundaryRadius e' = boundaryRadius e \<and> worldSize e' = worldSize e \<and>
      map fst (snakes e') = map fst (snakes e))"

definition keeps_body :: "snake \<Rightarrow> snake \<Rightarrow> bool" where
  "keeps_body s s' =
     (segments s' = segments s \<and> snake_length s' = snake_length s \<and>
      growPending s \<le> growPending s' \<and> boosting s' = boosting s \<and>
      angle s' = angle s \<and> targetAngle s' = targetAngle s \<and>
      (alive s' \<longrightarrow> alive s) \<and> (\<not> alive s \<longrightarrow> s' = s))"

definition keeps_life :: "snake \<Rightarrow> snake \<Rightarrow> bool" where
  "keeps_life s s' =
     (keeps_body s s' \<and> alive s' = alive s \<and> deathCause s' = deathCause s \<and>
      deathTick s' = deathTick s \<and> killedBy s' = killedBy s)"

definition snakes_rel :: "(snake \<Rightarrow> snake \<Rightarrow> bool) \<Rightarrow> engine \<Rightarrow> engine \<Rightarrow> bool" where
  "snakes_rel R e e' =
     (same_world e e' \<and>
      (\<forall>k. case map_of (snakes e) k of
             None \<Rightarrow> map_of (snakes e') k = None
           | Some s \<Rightarrow> (\<exists>s'. map_of (snakes e') k = Some s' \<and> R s s')))"

definition keeps_status :: "snake \<Rightarrow> snake \<Rightarrow> bool" where
  "keeps_status s s' =
     (alive s' = alive s \<and> activePowerups s' = activePowerups s \<and> boosting s' = boosting s \<and>
      deathCause s' = deathCause s \<and> deathTick s' = deathTick s \<and> killedBy s' = killedBy s \<and>
      score s' = score s \<and> kills s' = kills s \<and> (\<not> alive s \<longrightarrow> s' = s))"

definition seg_bound :: "nat \<Rightarrow> snake \<Rightarrow> bool" where
  "seg_bound tk s =
     (length (segments s) \<le> MAX_SNAKE_SEGMENTS \<and>
      length (segments s) \<le> snake_length s + growPending s + 1 \<and>
      (\<not> (boosting s \<and> tk mod BOOST_COST_INTERVAL = 0 \<and> INITIAL_SNAKE_LENGTH + 3 \<le> snake_length s)
         \<longrightarrow> length (segments s) \<le> snake_length s + growPending s))"

definition snake_ok :: "snake \<Rightarrow> bool" where
  "snake_ok s =
     (alive s \<longrightarrow> segments s \<noteq> [] \<and> 1 \<le> snake_length s + growPending s \<and>
        \<bar>angle s\<bar> \<le> 2 ^ 50 \<and> \<bar>targetAngle s\<bar> \<le> 2 ^ 50)"

definition engine_ok :: "engine \<Rightarrow> bool" where
  "engine_ok e = list_all (\<lambda>(k, s). snake_ok s) (snakes e)"

definition stepped :: "real \<Rightarrow> snake \<Rightarrow> snake" where
  "stepped a s =
     (case segments s of
        [] \<Rightarrow> s
      | head # _ \<Rightarrow>
          s\<lparr>angle := a,
            segments := \<lparr>px = px head + cos a * move_speed s,
                         py = py head + sin a * move_speed s\<rparr> # segments s\<rparr>)"

definition death_step :: "snake \<Rightarrow> snake \<Rightarrow> bool" where
  "death_step s s' =
     (keeps_body s s' \<and> activePowerups s' = activePowerups s \<and>
      growPending s' = growPending s \<and>
      (alive s' \<longrightarrow> deathCause s' = deathCause s \<and> deathTick s' = deathTick s \<and>
         killedBy s' = killedBy s))"

definition killed_snake :: "nat \<Rightarrow> death_cause \<Rightarrow> player_id option \<Rightarrow> snake \<Rightarrow> snake" where
  "killed_snake tk c kid s =
     s\<lparr>alive := False, deathTick := Some tk, deathCause := Some c, killedBy := kid\<rparr>"

definition credited :: "snake \<Rightarrow> snake" where
  "credited s = s\<lparr>kills := kills s + 1, score := score s + 50\<rparr>"

text \<open>Whether the killer of a death is credited: the id is truthy and names a living snake.\<close>

definition credits :: "engine \<Rightarrow> player_id option \<Rightarrow> bool" where
  "credits e kid =
     (case kid of
        None \<Rightarrow> False
      | Some k \<Rightarrow> k \<noteq> [] \<and> (case map_of (snakes e) k of None \<Rightarrow> False | Some s \<Rightarrow> alive s))"


definition alive_heads :: "(player_id \<times> snake) list \<Rightarrow> bool" where
  "alive_heads entries = list_all (\<lambda>(k, s). alive s \<longrightarrow> segments s \<noteq> []) entries"

definition numbered_heads :: "(nat \<times> player_id \<times> snake) list \<Rightarrow> bool" where
  "numbered_heads js = list_all (\<lambda>(j, k, s). alive s \<longrightarrow> segments s \<noteq> []) js"

definition only_rng :: "engine \<Rightarrow> engine \<Rightarrow> bool" where
  "only_rng e e' = (\<exists>r. e' = e\<lparr>rng := r\<rparr>)"

definition ticked :: "engine \<Rightarrow> engine" where
  "ticked e = e\<lparr>tick := tick e + 1, events := []\<rparr>"

definition then_do :: "error + 'a \<Rightarrow> ('a \<Rightarrow> error + 'b) \<Rightarrow> error + 'b" where
  "then_do x f = (case x of Inl err \<Rightarrow> Inl err | Inr v \<Rightarrow> f v)"










section \<open>Properties\<close>

subsection \<open>Association lists\<close>

lemma map_of_Some_key: "map_of al k = Some v \<Longrightarrow> k \<in> fst ` set al"
  by (force dest: map_of_SomeD)

subsection \<open>removeSnake and queueInput\<close>

lemma removeSnake_twice: "removeSnake k (removeSnake k e) = removeSnake k e"
  by (simp add: removeSnake_def AList.delete_idem)

lemma removeSnake_unknown: "map_of (snakes e) k = None \<Longrightarrow> removeSnake k e = e"
  by (simp add: removeSnake_def map_of_eq_None_iff)

lemma queueInput_unknown: "map_of (snakes e) k = None \<Longrightarrow> queueInput k a b e = e"
  by (simp add: queueInput_def)

lemma queueInput_dead: "map_of (snakes e) k = Some s \<Longrightarrow> \<not> alive s \<Longrightarrow> queueInput k a b e = e"
  by (simp add: queueInput_def)

lemma queueInput_alive_nonfinite:
  "finite_number a = None \<Longrightarrow> map_of (snakes e) k = Some s \<Longrightarrow> alive s \<Longrightarrow>
   queueInput k a b e = e\<lparr>snakes := AList.update k (s\<lparr>boosting := b\<rparr>) (snakes e)\<rparr>"
  by (simp add: queueInput_def)

text \<open>
  Claim C9. For every engine state and every id: after \<^verbatim>\<open>removeSnake(id)\<close> the id maps
  to no snake and a second \<^verbatim>\<open>removeSnake(id)\<close> leaves the engine unchanged; for an id
  that maps to no snake, \<^verbatim>\<open>removeSnake\<close> and \<^verbatim>\<open>queueInput\<close> (with any angle and
  boost value) leave the engine unchanged. Both functions are total and have no error
  result, so nothing is thrown.
\<close>

theorem removeSnake_queueInput_noop:
  "map_of (snakes (removeSnake k e)) k = None \<and>
   removeSnake k (removeSnake k e) = removeSnake k e \<and>
   (map_of (snakes e) k = None \<longrightarrow> removeSnake k e = e \<and> queueInput k a b e = e)"
  by (simp add: removeSnake_twice removeSnake_unknown queueInput_unknown)
     (simp add: removeSnake_def AList.delete_conv')

theorem removeSnake_queueInput_noop_witness:
  "map_of (snakes (removeSnake ''a'' engine_one)) ''a'' = None \<and>
   removeSnake ''a'' (removeSnake ''a'' engine_one) = removeSnake ''a'' engine_one \<and>
   map_of (snakes engine_one) ''b'' = None \<and>
   removeSnake ''b'' engine_one = engine_one \<and>
   queueInput ''b'' (JNum 1) True engine_one = engine_one \<and>
   snakes (removeSnake ''a'' engine_one) \<noteq> snakes engine_one"
proof -
  have n: "map_of (snakes engine_one) ''b'' = None"
    by (simp add: engine_one_def new_engine_def)
  have d: "snakes (removeSnake ''a'' engine_one) \<noteq> snakes engine_one"
    by (simp add: engine_one_def new_engine_def removeSnake_def AList.delete_eq)
  show ?thesis
    using removeSnake_queueInput_noop [of "''a''" engine_one]
      removeSnake_queueInput_noop [of "''b''" engine_one "JNum 1" True] n d
    by simp
qed

text \<open>
  Claim C8 as stated fails: with the angle \<^verbatim>\<open>NaN\<close> and a truthy boost argument,
  \<^verbatim>\<open>queueInput\<close> changes the living snake (its \<^verbatim>\<open>boosting\<close> flag is set).
\<close>

theorem queueInput_nonfinite_changes_snake:
  "map_of (snakes (queueInput ''a'' JNaN True engine_one)) ''a'' \<noteq> map_of (snakes engine_one) ''a''"
  by (simp add: queueInput_def engine_one_def new_engine_def snake_literal_def)

text \<open>
  Claim C8, amended. For every player id and every angle that is not a finite number,
  \<^verbatim>\<open>queueInput\<close> changes nothing of the engine but the snakes, keeps the keys and their
  order, and leaves every snake as it was except that the \<^verbatim>\<open>boosting\<close> flag of the
  target snake, when it is alive, is set to the truthiness of the boost argument; the
  target angle is never changed. When the target snake is missing, dead or already has
  that boost flag, the engine is unchanged.
\<close>

theorem queueInput_nonfinite_angle:
  assumes nf: "finite_number a = None"
  shows "(queueInput k a b e)\<lparr>snakes := snakes e\<rparr> = e \<and>
         map fst (snakes (queueInput k a b e)) = map fst (snakes e) \<and>
         (\<forall>k' s. map_of (snakes e) k' = Some s \<longrightarrow>
            map_of (snakes (queueInput k a b e)) k' =
              Some (if k' = k \<and> alive s then s\<lparr>boosting := b\<rparr> else s)) \<and>
         ((\<forall>s. map_of (snakes e) k = Some s \<longrightarrow> \<not> alive s \<or> boosting s = b) \<longrightarrow>
            queueInput k a b e = e)"
proof (cases "map_of (snakes e) k")
  case None
  then show ?thesis by (auto simp: queueInput_unknown)
next
  case (Some s)
  show ?thesis
  proof (cases "alive s")
    case False
    with Some show ?thesis by (auto simp: queueInput_dead)
  next
    case True
    have k: "k \<in> fst ` set (snakes e)" using Some by (rule map_of_Some_key)
    have q: "queueInput k a b e = e\<lparr>snakes := AList.update k (s\<lparr>boosting := b\<rparr>) (snakes e)\<rparr>"
      using nf Some True by (rule queueInput_alive_nonfinite)
    have t: "boosting s = b \<Longrightarrow> AList.update k (s\<lparr>boosting := b\<rparr>) (snakes e) = snakes e"
      using Some by (simp add: AList.update_triv)
    show ?thesis using Some True k t
      by (auto simp: q AList.update_keys AList.update_conv')
  qed
qed

theorem queueInput_nonfinite_angle_witness:
  "finite_number JInfinity = None \<and>
   (queueInput ''a'' JInfinity True engine_one)\<lparr>snakes := snakes engine_one\<rparr> = engine_one \<and>
   map fst (snakes (queueInput ''a'' JInfinity True engine_one)) = [''a''] \<and>
   map_of (snakes (queueInput ''a'' JInfinity True engine_one)) ''a'' =
     Some ((snake_literal ''a'' (straight_body 1000 1000 10))\<lparr>boosting := True\<rparr>) \<and>
   queueInput ''a'' JInfinity False engine_one = engine_one"
proof -
  have s: "map_of (snakes engine_one) ''a'' = Some (snake_literal ''a'' (straight_body 1000 1000 10))"
    "map fst (snakes engine_one) = [''a'']"
    by (simp_all add: engine_one_def new_engine_def)
  have a: "alive (snake_literal ''a'' (straight_body 1000 1000 10))"
    "\<not> boosting (snake_literal ''a'' (straight_body 1000 1000 10))"
    by (simp_all add: snake_literal_def)
  show ?thesis
    using queueInput_nonfinite_angle [where a = JInfinity and k = "''a''" and b = True and e = engine_one]
      queueInput_nonfinite_angle [where a = JInfinity and k = "''a''" and b = False and e = engine_one] s a
    by simp
qed

subsection \<open>Room: sending and broadcasting\<close>

lemma send_to_frame:
  "state (send_to k m r) = state r \<and> maxPlayers (send_to k m r) = maxPlayers r \<and>
   room_engine (send_to k m r) = room_engine r \<and> onGameOver (send_to k m r) = onGameOver r \<and>
   gameOverCalls (send_to k m r) = gameOverCalls r \<and>
   map fst (players (send_to k m r)) = map fst (players r)"
  by (auto simp: send_to_def AList.update_keys map_of_Some_key
           split: option.splits socket.splits)

lemma fold_send_frame:
  "state (fold (\<lambda>k r1. if P k then send_to k m r1 else r1) ks r) = state r \<and>
   maxPlayers (fold (\<lambda>k r1. if P k then send_to k m r1 else r1) ks r) = maxPlayers r \<and>
   room_engine (fold (\<lambda>k r1. if P k then send_to k m r1 else r1) ks r) = room_engine r \<and>
   onGameOver (fold (\<lambda>k r1. if P k then send_to k m r1 else r1) ks r) = onGameOver r \<and>
   gameOverCalls (fold (\<lambda>k r1. if P k then send_to k m r1 else r1) ks r) = gameOverCalls r \<and>
   map fst (players (fold (\<lambda>k r1. if P k then send_to k m r1 else r1) ks r)) = map fst (players r)"
  by (induction ks arbitrary: r) (simp_all add: send_to_frame)

lemma broadcast_frame:
  "state (broadcast m x r) = state r \<and> maxPlayers (broadcast m x r) = maxPlayers r \<and>
   room_engine (broadcast m x r) = room_engine r \<and> onGameOver (broadcast m x r) = onGameOver r \<and>
   gameOverCalls (broadcast m x r) = gameOverCalls r \<and>
   map fst (players (broadcast m x r)) = map fst (players r)"
  unfolding broadcast_def by (rule fold_send_frame)

lemma send_to_socket_open: "socket_open (send_to k m r) k' = socket_open r k'"
  by (auto simp: send_to_def socket_open_def AList.update_conv' split: option.splits socket.splits)

lemma send_to_outbox_mono: "x \<in> set (outbox r) \<Longrightarrow> x \<in> set (outbox (send_to k m r))"
  by (auto simp: send_to_def split: option.splits socket.splits)

lemma send_to_delivers: "socket_open r k \<Longrightarrow> (k, m) \<in> set (outbox (send_to k m r))"
  by (auto simp: send_to_def socket_open_def split: option.splits socket.splits)

lemma fold_send_outbox_mono:
  "x \<in> set (outbox r) \<Longrightarrow>
   x \<in> set (outbox (fold (\<lambda>k r1. if P k then send_to k m r1 else r1) ks r))"
  by (induction ks arbitrary: r) (simp_all add: send_to_outbox_mono)

lemma fold_send_delivers:
  "k \<in> set ks \<Longrightarrow> P k \<Longrightarrow> socket_open r k \<Longrightarrow>
   (k, m) \<in> set (outbox (fold (\<lambda>k r1. if P k then send_to k m r1 else r1) ks r))"
proof (induction ks arbitrary: r)
  case Nil
  then show ?case by simp
next
  case (Cons a ks)
  show ?case
  proof (cases "a = k")
    case True
    have "(k, m) \<in> set (outbox (send_to k m r))"
      using Cons.prems(3) by (rule send_to_delivers)
    then show ?thesis using True Cons.prems(2) by (simp add: fold_send_outbox_mono)
  next
    case False
    then have "k \<in> set ks" using Cons.prems(1) by simp
    moreover have "socket_open (if P a then send_to a m r else r) k"
      using Cons.prems(3) by (simp add: send_to_socket_open)
    ultimately show ?thesis using Cons.IH [OF _ Cons.prems(2)] by simp
  qed
qed

lemma broadcast_delivers:
  "socket_open r k \<Longrightarrow> (k, m) \<in> set (outbox (broadcast m None r))"
  unfolding broadcast_def
  by (rule fold_send_delivers) (auto simp: socket_open_def map_of_Some_key split: option.splits)

subsection \<open>Room: joining\<close>

lemma addPlayer_spectator:
  assumes "state r = PLAYING \<or> state r = COUNTDOWN"
  shows "fst (addPlayer pl r) = AddSuccess True"
    and "map fst (players (snd (addPlayer pl r))) =
           (if p_id pl \<in> set (map fst (players r)) then map fst (players r)
            else map fst (players r) @ [p_id pl])"
    and "maxPlayers (snd (addPlayer pl r)) = maxPlayers r"
    and "state (snd (addPlayer pl r)) = state r"
  using assms
  by (auto simp: addPlayer_def Let_def broadcast_frame send_to_frame AList.update_keys
           split: option.splits)

lemma addPlayer_full:
  "fst (addPlayer pl r) = AddError msg \<Longrightarrow>
     msg = ''Room is full'' \<and> (state r = WAITING \<or> state r = ENDED) \<and> isFull r \<and>
     snd (addPlayer pl r) = r"
  by (cases "state r") (auto simp: addPlayer_def Let_def split: if_splits)

text \<open>
  Claim C10. In a room whose state is PLAYING or COUNTDOWN, \<^verbatim>\<open>addPlayer\<close> returns
  \<^verbatim>\<open>{success: true, asSpectator: true}\<close> whatever the number of players and
  \<^verbatim>\<open>maxPlayers\<close> are: the player is a member afterwards, \<^verbatim>\<open>maxPlayers\<close> is
  unchanged, and a player who was not a member makes the player count one larger. An
  error result is always "Room is full" and is returned only in the states WAITING
  and ENDED (of a full room). The witness is a playing room that is full and has more
  players than \<^verbatim>\<open>maxPlayers\<close> after a spectator joined.
\<close>

theorem addPlayer_spectator_skips_capacity:
  "(state r = PLAYING \<or> state r = COUNTDOWN \<longrightarrow>
      fst (addPlayer pl r) = AddSuccess True \<and>
      p_id pl \<in> set (map fst (players (snd (addPlayer pl r)))) \<and>
      maxPlayers (snd (addPlayer pl r)) = maxPlayers r \<and>
      (p_id pl \<notin> set (map fst (players r)) \<longrightarrow>
         length (players (snd (addPlayer pl r))) = length (players r) + 1)) \<and>
   (\<forall>msg. fst (addPlayer pl r) = AddError msg \<longrightarrow>
      msg = ''Room is full'' \<and> (state r = WAITING \<or> state r = ENDED) \<and> isFull r)"
proof (intro conjI impI allI)
  fix msg assume "fst (addPlayer pl r) = AddError msg"
  from addPlayer_full [OF this]
  show "msg = ''Room is full''" "state r = WAITING \<or> state r = ENDED" "isFull r" by simp_all
next
  assume a: "state r = PLAYING \<or> state r = COUNTDOWN"
  show "fst (addPlayer pl r) = AddSuccess True" by (rule addPlayer_spectator(1) [OF a])
  show "p_id pl \<in> set (map fst (players (snd (addPlayer pl r))))"
    by (simp only: addPlayer_spectator(2) [OF a]) simp
  show "maxPlayers (snd (addPlayer pl r)) = maxPlayers r" by (rule addPlayer_spectator(3) [OF a])
  assume n: "p_id pl \<notin> set (map fst (players r))"
  have "length (map fst (players (snd (addPlayer pl r)))) = length (map fst (players r)) + 1"
    using n by (simp only: addPlayer_spectator(2) [OF a]) simp
  then show "length (players (snd (addPlayer pl r))) = length (players r) + 1" by simp
qed

theorem addPlayer_spectator_skips_capacity_witness:
  "state room_full_playing = PLAYING \<and> isFull room_full_playing \<and>
   fst (addPlayer (player_literal ''b'') room_full_playing) = AddSuccess True \<and>
   maxPlayers (snd (addPlayer (player_literal ''b'') room_full_playing)) = 1 \<and>
   length (players (snd (addPlayer (player_literal ''b'') room_full_playing))) = 2 \<and>
   fst (addPlayer (player_literal ''b'') (room_full_playing\<lparr>state := WAITING\<rparr>))
     = AddError ''Room is full''"
proof -
  have s: "state room_full_playing = PLAYING" "isFull room_full_playing"
    "maxPlayers room_full_playing = 1" "length (players room_full_playing) = 1"
    "p_id (player_literal ''b'') \<notin> set (map fst (players room_full_playing))"
    by (simp_all add: room_full_playing_def room_literal_def isFull_def player_literal_def)
  have f: "fst (addPlayer (player_literal ''b'') (room_full_playing\<lparr>state := WAITING\<rparr>))
     = AddError ''Room is full''"
    by (simp add: addPlayer_def isFull_def room_full_playing_def room_literal_def)
  show ?thesis
    using addPlayer_spectator_skips_capacity [of room_full_playing "player_literal ''b''"] s f
    by simp
qed

subsection \<open>Room: the end of a game\<close>

lemma fold_count_alive:
  "fold (\<lambda>s count. if alive s then count + 1 else count) xs n
     = n + length (filter (\<lambda>s. alive s) xs)"
  by (induction xs arbitrary: n) simp_all

lemma getAliveCount_filter:
  "getAliveCount e = length (filter (\<lambda>s. alive s) (map snd (snakes e)))"
  by (simp add: getAliveCount_def fold_count_alive)

lemma endGame_state: "state r \<noteq> ENDED \<Longrightarrow> state (endGame reason n1 n2 r) = ENDED"
  by (simp add: endGame_def Let_def broadcast_frame)

lemma g_reason_gameOverData: "g_reason (gameOverData reason n2 r) = reason"
  by (simp add: gameOverData_def Let_def)

lemma endGame_calls:
  "state r \<noteq> ENDED \<Longrightarrow> onGameOver r \<Longrightarrow>
   gameOverCalls (endGame reason n1 n2 r) =
     gameOverCalls r @ [gameOverData reason n2 (r\<lparr>state := ENDED, endedAt := Some n1,
                   tickInterval := False, timedGameTimeout := False\<rparr>)]"
  by (simp add: endGame_def Let_def broadcast_frame)

lemma endGame_outbox:
  "state r \<noteq> ENDED \<Longrightarrow> socket_open r k \<Longrightarrow>
   (k, GameOverMsg (gameOverData reason n2 (r\<lparr>state := ENDED, endedAt := Some n1,
                   tickInterval := False, timedGameTimeout := False\<rparr>)))
     \<in> set (outbox (endGame reason n1 n2 r))"
  by (simp add: endGame_def Let_def broadcast_delivers socket_open_def)

lemma checkGameEnd_last_standing:
  assumes "mode r = LAST_STANDING" "state r = PLAYING" "room_engine r = Some eng"
  shows "checkGameEnd n1 n2 r =
     (let alv = length (filter (\<lambda>s. alive s) (map snd (snakes eng)));
          ntotal = length (snakes eng)
      in if 2 \<le> ntotal \<and> alv \<le> 1 then endGame (if alv = 1 then Winner else Draw) n1 n2 r
         else if ntotal = 1 \<and> alv = 0 then endGame GameOver n1 n2 r
         else r)"
  using assms by (simp add: checkGameEnd_def Let_def getAliveCount_filter)

lemma standings_engine_three: "map b_id (getStandings engine_three) = [''c'', ''a'', ''b'']"
  by (simp add: getStandings_def engine_three_def new_engine_def snake_literal_def js_sort_def
        cmp_standing_def List.enumerate_eq_zip standing_entry_def)

text \<open>
  Claim C3, as stated, fails: it counts the snakes ever spawned, and
  \<^verbatim>\<open>_checkGameEnd\<close> counts the snakes the engine holds. Two snakes were spawned and
  the player of b has left, which removed snake b; one snake is alive, and the room stays
  PLAYING.
\<close>

theorem checkGameEnd_ignores_removed_snake:
  "length (snakes engine_two) = 2 \<and>
   length (snakes (removeSnake ''b'' engine_two)) = 1 \<and>
   getAliveCount (removeSnake ''b'' engine_two) = 1 \<and>
   mode room_after_leave = LAST_STANDING \<and>
   state room_after_leave = PLAYING \<and>
   room_engine room_after_leave = Some (removeSnake ''b'' engine_two) \<and>
   checkGameEnd 5000 5001 room_after_leave = room_after_leave"
  by (simp add: engine_two_def room_after_leave_def room_literal_def removeSnake_def
        new_engine_def getAliveCount_def snake_literal_def checkGameEnd_def Let_def)

text \<open>
  Claim C3, amended. In last-standing mode, for a room that is PLAYING with an engine that
  holds \<open>ntotal\<close> snakes (\<^verbatim>\<open>snakes.size\<close>: spawned and not removed since) of which
  \<open>alv\<close> are alive: when \<open>ntotal \<ge> 2\<close> and \<open>alv \<le> 1\<close>,
  \<^verbatim>\<open>_checkGameEnd\<close> is \<^verbatim>\<open>_endGame(reason)\<close> with reason "winner" for \<open>alv = 1\<close> and
  "draw" for \<open>alv = 0\<close>; when \<open>ntotal = 1\<close> and \<open>alv = 0\<close> the reason is "game_over".
  The room is ENDED afterwards, and the game-over data with that reason is what the
  installed callback is called with and what every member with an open socket is sent.
\<close>

theorem checkGameEnd_last_standing_ends:
  assumes m: "mode r = LAST_STANDING" and p: "state r = PLAYING" and e: "room_engine r = Some eng"
    and r': "r' = checkGameEnd n1 n2 r"
    and alv: "alv = length (filter (\<lambda>s. alive s) (map snd (snakes eng)))"
    and ntotal: "ntotal = length (snakes eng)"
    and ends: "(2 \<le> ntotal \<and> alv \<le> 1) \<or> (ntotal = 1 \<and> alv = 0)"
    and reason: "reason = (if 2 \<le> ntotal then (if alv = 1 then Winner else Draw) else GameOver)"
  shows "state r' = ENDED \<and> r' = endGame reason n1 n2 r \<and>
         (\<exists>d. g_reason d = reason \<and>
              (onGameOver r \<longrightarrow> gameOverCalls r' = gameOverCalls r @ [d]) \<and>
              (\<forall>k. socket_open r k \<longrightarrow> (k, GameOverMsg d) \<in> set (outbox r')))"
proof -
  have eq: "r' = endGame reason n1 n2 r"
    using ends unfolding r' reason checkGameEnd_last_standing [OF m p e] Let_def alv ntotal
    by auto
  have ne: "state r \<noteq> ENDED" using p by simp
  let ?d = "gameOverData reason n2 (r\<lparr>state := ENDED, endedAt := Some n1,
                   tickInterval := False, timedGameTimeout := False\<rparr>)"
  have "g_reason ?d = reason" by (rule g_reason_gameOverData)
  moreover have "onGameOver r \<longrightarrow> gameOverCalls r' = gameOverCalls r @ [?d]"
    unfolding eq using endGame_calls [OF ne] by blast
  moreover have "\<forall>k. socket_open r k \<longrightarrow> (k, GameOverMsg ?d) \<in> set (outbox r')"
    unfolding eq using endGame_outbox [OF ne] by blast
  ultimately show ?thesis using eq endGame_state [OF ne] by blast
qed

theorem checkGameEnd_last_standing_ends_witness:
  "state (checkGameEnd 5000 5001 room_three) = ENDED \<and>
   checkGameEnd 5000 5001 room_three = endGame Winner 5000 5001 room_three \<and>
   map g_reason (gameOverCalls (checkGameEnd 5000 5001 room_three)) = [Winner] \<and>
   map (\<lambda>d. map b_id (g_standings d)) (gameOverCalls (checkGameEnd 5000 5001 room_three))
     = [[''c'', ''a'', ''b'']]"
proof -
  have h: "mode room_three = LAST_STANDING" "state room_three = PLAYING"
    "room_engine room_three = Some engine_three" "onGameOver room_three"
    "gameOverCalls room_three = []"
    by (simp_all add: room_three_def room_literal_def)
  have a: "length (filter (\<lambda>s. alive s) (map snd (snakes engine_three))) = 1"
    "length (snakes engine_three) = 3"
    by (simp_all add: engine_three_def new_engine_def snake_literal_def)
  have c: "gameOverCalls (endGame Winner 5000 5001 room_three) =
     [gameOverData Winner 5001 (room_three\<lparr>state := ENDED, endedAt := Some 5000,
                   tickInterval := False, timedGameTimeout := False\<rparr>)]"
    using endGame_calls [of room_three Winner 5000 5001] h by simp
  have g: "map b_id (g_standings (gameOverData Winner 5001
             (room_three\<lparr>state := ENDED, endedAt := Some 5000,
                tickInterval := False, timedGameTimeout := False\<rparr>))) = [''c'', ''a'', ''b'']"
    using standings_engine_three h(3) by (simp add: gameOverData_def Let_def)
  have "state (checkGameEnd 5000 5001 room_three) = ENDED \<and>
     checkGameEnd 5000 5001 room_three = endGame Winner 5000 5001 room_three \<and>
     (\<exists>d. g_reason d = Winner \<and>
          (onGameOver room_three \<longrightarrow>
             gameOverCalls (checkGameEnd 5000 5001 room_three) = gameOverCalls room_three @ [d]) \<and>
          (\<forall>k. socket_open room_three k \<longrightarrow>
             (k, GameOverMsg d) \<in> set (outbox (checkGameEnd 5000 5001 room_three))))"
    by (rule checkGameEnd_last_standing_ends [OF h(1,2,3) refl refl refl]) (use a in simp_all)
  then have "state (checkGameEnd 5000 5001 room_three) = ENDED"
    "checkGameEnd 5000 5001 room_three = endGame Winner 5000 5001 room_three"
    by blast+
  then show ?thesis using c g by (simp add: g_reason_gameOverData)
qed

subsection \<open>Leaderboard and standings\<close>

lemma mset_insort_cmp: "mset (insort_cmp c x xs) = add_mset x (mset xs)"
  by (induction xs) simp_all

lemma mset_js_sort: "mset (js_sort c xs) = mset xs"
  by (induction xs) (simp_all add: js_sort_def mset_insort_cmp)

lemma set_insort_cmp: "set (insort_cmp c x xs) = insert x (set xs)"
  by (induction xs) auto

lemma set_js_sort: "set (js_sort c xs) = set xs"
  by (induction xs) (simp_all add: js_sort_def set_insort_cmp)

lemma length_js_sort: "length (js_sort c xs) = length xs"
  using mset_js_sort [of c xs] by (metis size_mset)

lemma sorted_insort_cmp:
  assumes tr: "\<And>a b d. c a b \<le> 0 \<Longrightarrow> c b d \<le> 0 \<Longrightarrow> c a d \<le> 0"
    and tot: "\<And>a b. c a b \<le> 0 \<or> c b a \<le> 0"
  shows "sorted_wrt (\<lambda>a b. c a b \<le> 0) xs \<Longrightarrow> sorted_wrt (\<lambda>a b. c a b \<le> 0) (insort_cmp c x xs)"
proof (induction xs)
  case Nil
  then show ?case by simp
next
  case (Cons y ys)
  show ?case
  proof (cases "c x y \<le> 0")
    case True
    have "\<forall>z\<in>set ys. c x z \<le> 0" using True Cons.prems tr by auto
    then show ?thesis using True Cons.prems by simp
  next
    case False
    then have "c y x \<le> 0" using tot [of x y] by simp
    then show ?thesis using False Cons by (simp add: set_insort_cmp)
  qed
qed

lemma sorted_js_sort:
  assumes tr: "\<And>a b d. c a b \<le> 0 \<Longrightarrow> c b d \<le> 0 \<Longrightarrow> c a d \<le> 0"
    and tot: "\<And>a b. c a b \<le> 0 \<or> c b a \<le> 0"
  shows "sorted_wrt (\<lambda>a b. c a b \<le> 0) (js_sort c xs)"
proof (induction xs)
  case Nil
  then show ?case by (simp add: js_sort_def)
next
  case (Cons x xs)
  have "js_sort c (x # xs) = insort_cmp c x (js_sort c xs)" by (simp add: js_sort_def)
  then show ?case using sorted_insort_cmp [OF tr tot Cons] by simp
qed

lemma sorted_cmp_alive: "sorted_wrt (\<lambda>a b. cmp_alive a b \<le> 0) (js_sort cmp_alive xs)"
  by (rule sorted_js_sort) (auto simp: cmp_alive_def split: if_splits)

lemma sorted_cmp_dead: "sorted_wrt (\<lambda>a b. cmp_dead a b \<le> 0) (js_sort cmp_dead xs)"
  by (rule sorted_js_sort) (auto simp: cmp_dead_def)

lemma sorted_cmp_standing: "sorted_wrt (\<lambda>a b. cmp_standing a b \<le> 0) (js_sort cmp_standing xs)"
  by (rule sorted_js_sort) (auto simp: cmp_standing_def split: if_splits)

lemma sorted_wrt_enumerate:
  "sorted_wrt (\<lambda>p q. P (snd p) (snd q)) (List.enumerate n xs) = sorted_wrt P xs"
  using sorted_wrt_map [of P snd "List.enumerate n xs"] by simp

lemma sorted_entries:
  assumes "sorted_wrt P xs"
    and "\<And>i j a b. a \<in> set xs \<Longrightarrow> b \<in> set xs \<Longrightarrow> P a b \<Longrightarrow> Q (f (i, a)) (f (j, b))"
  shows "sorted_wrt Q (map f (List.enumerate n xs))"
proof -
  have "sorted_wrt (\<lambda>p q. P (snd p) (snd q)) (List.enumerate n xs)"
    using assms(1) by (simp add: sorted_wrt_enumerate)
  then have "sorted_wrt (\<lambda>p q. Q (f p) (f q)) (List.enumerate n xs)"
  proof (rule sorted_wrt_mono_rel [rotated])
    fix p q assume "p \<in> set (List.enumerate n xs)" "q \<in> set (List.enumerate n xs)"
      "P (snd p) (snd q)"
    moreover have "snd ` set (List.enumerate n xs) = set xs"
      using map_snd_enumerate [of n xs] by (metis set_map)
    ultimately have "snd p \<in> set xs" "snd q \<in> set xs" "P (snd p) (snd q)" by blast+
    then show "Q (f p) (f q)"
      using assms(2) [of "snd p" "snd q" "fst p" "fst q"] by simp
  qed
  then show ?thesis by (simp add: sorted_wrt_map)
qed

lemma alive_sorted: "sorted_wrt by_score_length (lb_alive (getLeaderboard e))"
  unfolding getLeaderboard_def Let_def leaderboard.simps
  by (rule sorted_entries [OF sorted_cmp_alive])
     (auto simp: alive_entry_def by_score_length_def cmp_alive_def split: if_splits)

lemma dead_sorted:
  "sorted_wrt (\<lambda>a b. \<exists>ta tb. b_deathTick a = Some ta \<and> b_deathTick b = Some tb \<and> tb \<le> ta)
     (lb_dead (getLeaderboard e))"
  unfolding getLeaderboard_def Let_def leaderboard.simps
  by (rule sorted_entries [OF sorted_cmp_dead])
     (auto simp: dead_entry_def cmp_dead_def tick_or_0_def set_js_sort)

lemma standings_sorted:
  "sorted_wrt (\<lambda>a b. (b_alive a \<and> \<not> b_alive b) \<or> (b_alive a = b_alive b \<and> by_score_length a b))
     (getStandings e)"
  unfolding getStandings_def
  by (rule sorted_entries [OF sorted_cmp_standing])
     (auto simp: standing_entry_def by_score_length_def cmp_standing_def split: if_splits)

lemma map_entry_ids:
  assumes "\<And>i s. b_id (f (i, s)) = snake_id s"
  shows "map b_id (map f (List.enumerate n xs)) = map snake_id xs"
proof -
  have "map b_id (map f (List.enumerate n xs)) = map (snake_id \<circ> snd) (List.enumerate n xs)"
    using assms by (auto simp: fun_eq_iff)
  also have "\<dots> = map snake_id xs"
    by (simp only: map_map [symmetric] map_snd_enumerate)
  finally show ?thesis .
qed

lemma alive_ids:
  "mset (map b_id (lb_alive (getLeaderboard e)))
     = mset (map snake_id (filter (\<lambda>s. alive s) (map snd (snakes e))))"
  unfolding getLeaderboard_def Let_def leaderboard.simps
  by (subst map_entry_ids) (simp_all add: alive_entry_def mset_js_sort)


lemma dead_ids:
  "mset (map b_id (lb_dead (getLeaderboard e)))
     = mset (map snake_id (filter (\<lambda>s. \<not> alive s \<and> deathTick s \<noteq> None) (map snd (snakes e))))"
  unfolding getLeaderboard_def Let_def leaderboard.simps
  by (subst map_entry_ids) (simp_all add: dead_entry_def mset_js_sort)

lemma standings_ids:
  "mset (map b_id (getStandings e)) = mset (map snake_id (map snd (snakes e)))"
  unfolding getStandings_def
  by (subst map_entry_ids) (simp_all add: standing_entry_def mset_js_sort multiset.map_comp)

lemma standings_alive_first:
  assumes "i < j" "j < length (getStandings e)" "b_alive (getStandings e ! j)"
  shows "b_alive (getStandings e ! i)"
  using standings_sorted [of e] assms by (auto simp: sorted_wrt_iff_nth_less)

lemma rows_enumerate:
  assumes "\<And>i s. s \<in> set xs \<Longrightarrow> R (f (i, s)) s"
  shows "list_all2 R (map f (List.enumerate n xs)) xs"
  using assms
proof (induction xs arbitrary: n)
  case Nil
  then show ?case by simp
next
  case (Cons x xs)
  then show ?case by simp
qed

lemma ranks_enumerate:
  assumes "\<And>i s. b_rank (f (i, s)) = g i"
  shows "map b_rank (map f (List.enumerate 0 xs)) = map g [0..<length xs]"
proof -
  have "map b_rank (map f (List.enumerate 0 xs)) = map (g \<circ> fst) (List.enumerate 0 xs)"
    using assms by (auto simp: fun_eq_iff)
  also have "\<dots> = map g (map fst (List.enumerate 0 xs))" by (simp only: map_map)
  also have "\<dots> = map g [0..<length xs]" by (simp only: map_fst_enumerate) simp
  finally show ?thesis .
qed

lemma alive_rows:
  "\<exists>as. mset as = mset (filter (\<lambda>s. alive s) (map snd (snakes e))) \<and>
        sorted_wrt snake_order as \<and>
        list_all2 row_of (lb_alive (getLeaderboard e)) as \<and>
        map b_rank (lb_alive (getLeaderboard e)) = map Suc [0..<length as]"
proof -
  let ?as = "js_sort cmp_alive (filter (\<lambda>s. alive s) (map snd (snakes e)))"
  have l: "lb_alive (getLeaderboard e) = map alive_entry (List.enumerate 0 ?as)"
    by (simp add: getLeaderboard_def Let_def)
  have "sorted_wrt (\<lambda>a b. cmp_alive a b \<le> 0) ?as" by (rule sorted_cmp_alive)
  then have s: "sorted_wrt snake_order ?as"
    by (rule sorted_wrt_mono_rel [rotated])
       (auto simp: cmp_alive_def snake_order_def split: if_splits)
  have r: "list_all2 row_of (map alive_entry (List.enumerate 0 ?as)) ?as"
    by (rule rows_enumerate) (simp add: alive_entry_def row_of_def set_js_sort)
  have k: "map b_rank (map alive_entry (List.enumerate 0 ?as)) = map Suc [0..<length ?as]"
    by (rule ranks_enumerate) (simp add: alive_entry_def)
  show ?thesis using mset_js_sort [of cmp_alive] s r k unfolding l by blast
qed

lemma dead_rows:
  "\<exists>ds. mset ds = mset (filter (\<lambda>s. \<not> alive s \<and> deathTick s \<noteq> None) (map snd (snakes e))) \<and>
        sorted_wrt (\<lambda>a b. \<exists>ta tb. deathTick a = Some ta \<and> deathTick b = Some tb \<and> tb \<le> ta) ds \<and>
        list_all2 (\<lambda>r s. row_of r s \<and> b_deathTick r = deathTick s \<and>
                     b_deathCause r = deathCause s \<and> b_killedBy r = killedBy s)
          (lb_dead (getLeaderboard e)) ds \<and>
        map b_rank (lb_dead (getLeaderboard e))
          = map (\<lambda>i. length (lb_alive (getLeaderboard e)) + i + 1) [0..<length ds]"
proof -
  let ?ds = "js_sort cmp_dead (filter (\<lambda>s. \<not> alive s \<and> deathTick s \<noteq> None) (map snd (snakes e)))"
  let ?n = "length (lb_alive (getLeaderboard e))"
  have l: "lb_dead (getLeaderboard e) = map (dead_entry ?n) (List.enumerate 0 ?ds)"
    by (simp add: getLeaderboard_def Let_def)
  have "sorted_wrt (\<lambda>a b. cmp_dead a b \<le> 0) ?ds" by (rule sorted_cmp_dead)
  then have s: "sorted_wrt (\<lambda>a b. \<exists>ta tb. deathTick a = Some ta \<and> deathTick b = Some tb \<and> tb \<le> ta) ?ds"
    by (rule sorted_wrt_mono_rel [rotated])
       (auto simp: cmp_dead_def tick_or_0_def set_js_sort)
  have r: "list_all2 (\<lambda>r s. row_of r s \<and> b_deathTick r = deathTick s \<and>
                     b_deathCause r = deathCause s \<and> b_killedBy r = killedBy s)
             (map (dead_entry ?n) (List.enumerate 0 ?ds)) ?ds"
    by (rule rows_enumerate) (simp add: dead_entry_def row_of_def set_js_sort)
  have k: "map b_rank (map (dead_entry ?n) (List.enumerate 0 ?ds))
             = map (\<lambda>i. ?n + i + 1) [0..<length ?ds]"
    by (rule ranks_enumerate) (simp add: dead_entry_def)
  show ?thesis using mset_js_sort [of cmp_dead] s r k unfolding l by blast
qed

lemma standing_rows:
  "\<exists>ss. mset ss = mset (map snd (snakes e)) \<and>
        sorted_wrt (\<lambda>a b. (alive a \<and> \<not> alive b) \<or> (alive a = alive b \<and> snake_order a b)) ss \<and>
        list_all2 (\<lambda>r s. row_of r s \<and> b_deathTick r = deathTick s \<and>
                     b_deathCause r = deathCause s \<and>
                     b_survivalTicks r = Some (survivalTicks (tick e) s))
          (getStandings e) ss \<and>
        map b_rank (getStandings e) = map Suc [0..<length ss]"
proof -
  let ?ss = "js_sort cmp_standing (map snd (snakes e))"
  have l: "getStandings e = map (standing_entry (tick e)) (List.enumerate 0 ?ss)"
    by (simp add: getStandings_def)
  have "sorted_wrt (\<lambda>a b. cmp_standing a b \<le> 0) ?ss" by (rule sorted_cmp_standing)
  then have s: "sorted_wrt (\<lambda>a b. (alive a \<and> \<not> alive b) \<or> (alive a = alive b \<and> snake_order a b)) ?ss"
    by (rule sorted_wrt_mono_rel [rotated])
       (auto simp: cmp_standing_def snake_order_def split: if_splits)
  have r: "list_all2 (\<lambda>r s. row_of r s \<and> b_deathTick r = deathTick s \<and>
                     b_deathCause r = deathCause s \<and>
                     b_survivalTicks r = Some (survivalTicks (tick e) s))
             (map (standing_entry (tick e)) (List.enumerate 0 ?ss)) ?ss"
    by (rule rows_enumerate) (simp add: standing_entry_def row_of_def)
  have k: "map b_rank (map (standing_entry (tick e)) (List.enumerate 0 ?ss)) = map Suc [0..<length ?ss]"
    by (rule ranks_enumerate) (simp add: standing_entry_def)
  show ?thesis using mset_js_sort [of cmp_standing] s r k unfolding l by blast
qed

text \<open>
  Claim C6. For every engine state: the \<^verbatim>\<open>alive\<close> list of
  \<^verbatim>\<open>getLeaderboard()\<close> is the living snakes, descending by score and then by
  length; its \<^verbatim>\<open>dead\<close> list is the dead snakes with a death tick, the most recent
  death first; \<^verbatim>\<open>getStandings()\<close> is all snakes, every living one before every
  dead one whatever the scores, and among the living and among the dead descending by
  score and then by length. Each list is stated twice: as an order on its rows, and as an
  arrangement of the snakes in that order of which the rows show, one by one, the id, name,
  colour, pattern, score, length, kills and life (and the death fields), with the ranks
  counting up.
\<close>

theorem leaderboard_standings_order:
  "sorted_wrt by_score_length (lb_alive (getLeaderboard e)) \<and>
   mset (map b_id (lb_alive (getLeaderboard e)))
     = mset (map snake_id (filter (\<lambda>s. alive s) (map snd (snakes e)))) \<and>
   sorted_wrt (\<lambda>a b. \<exists>ta tb. b_deathTick a = Some ta \<and> b_deathTick b = Some tb \<and> tb \<le> ta)
     (lb_dead (getLeaderboard e)) \<and>
   mset (map b_id (lb_dead (getLeaderboard e)))
     = mset (map snake_id (filter (\<lambda>s. \<not> alive s \<and> deathTick s \<noteq> None) (map snd (snakes e)))) \<and>
   sorted_wrt (\<lambda>a b. (b_alive a \<and> \<not> b_alive b) \<or> (b_alive a = b_alive b \<and> by_score_length a b))
     (getStandings e) \<and>
   mset (map b_id (getStandings e)) = mset (map snake_id (map snd (snakes e))) \<and>
   (\<forall>i j. i < j \<and> j < length (getStandings e) \<and> b_alive (getStandings e ! j)
      \<longrightarrow> b_alive (getStandings e ! i)) \<and>
   (\<exists>as. mset as = mset (filter (\<lambda>s. alive s) (map snd (snakes e))) \<and>
        sorted_wrt snake_order as \<and>
        list_all2 row_of (lb_alive (getLeaderboard e)) as \<and>
        map b_rank (lb_alive (getLeaderboard e)) = map Suc [0..<length as]) \<and>
   (\<exists>ds. mset ds = mset (filter (\<lambda>s. \<not> alive s \<and> deathTick s \<noteq> None) (map snd (snakes e))) \<and>
        sorted_wrt (\<lambda>a b. \<exists>ta tb. deathTick a = Some ta \<and> deathTick b = Some tb \<and> tb \<le> ta) ds \<and>
        list_all2 (\<lambda>r s. row_of r s \<and> b_deathTick r = deathTick s \<and>
                     b_deathCause r = deathCause s \<and> b_killedBy r = killedBy s)
          (lb_dead (getLeaderboard e)) ds \<and>
        map b_rank (lb_dead (getLeaderboard e))
          = map (\<lambda>i. length (lb_alive (getLeaderboard e)) + i + 1) [0..<length ds]) \<and>
   (\<exists>ss. mset ss = mset (map snd (snakes e)) \<and>
        sorted_wrt (\<lambda>a b. (alive a \<and> \<not> alive b) \<or> (alive a = alive b \<and> snake_order a b)) ss \<and>
        list_all2 (\<lambda>r s. row_of r s \<and> b_deathTick r = deathTick s \<and>
                     b_deathCause r = deathCause s \<and>
                     b_survivalTicks r = Some (survivalTicks (tick e) s))
          (getStandings e) ss \<and>
        map b_rank (getStandings e) = map Suc [0..<length ss])"
proof -
  have old: "sorted_wrt by_score_length (lb_alive (getLeaderboard e)) \<and>
   mset (map b_id (lb_alive (getLeaderboard e)))
     = mset (map snake_id (filter (\<lambda>s. alive s) (map snd (snakes e)))) \<and>
   sorted_wrt (\<lambda>a b. \<exists>ta tb. b_deathTick a = Some ta \<and> b_deathTick b = Some tb \<and> tb \<le> ta)
     (lb_dead (getLeaderboard e)) \<and>
   mset (map b_id (lb_dead (getLeaderboard e)))
     = mset (map snake_id (filter (\<lambda>s. \<not> alive s \<and> deathTick s \<noteq> None) (map snd (snakes e)))) \<and>
   sorted_wrt (\<lambda>a b. (b_alive a \<and> \<not> b_alive b) \<or> (b_alive a = b_alive b \<and> by_score_length a b))
     (getStandings e) \<and>
   mset (map b_id (getStandings e)) = mset (map snake_id (map snd (snakes e))) \<and>
   (\<forall>i j. i < j \<and> j < length (getStandings e) \<and> b_alive (getStandings e ! j)
      \<longrightarrow> b_alive (getStandings e ! i))"
    using alive_sorted alive_ids dead_sorted dead_ids standings_sorted standings_ids
      standings_alive_first by blast
  show ?thesis
    using old alive_rows [of e] dead_rows [of e] standing_rows [of e] by (intro conjI) simp_all
qed

lemma board_five:
  "map b_id (lb_alive (getLeaderboard engine_five)) = [''e'', ''c'', ''a'']"
  "map b_id (lb_dead (getLeaderboard engine_five)) = [''d'', ''b'']"
  "map b_id (getStandings engine_five) = [''e'', ''c'', ''a'', ''b'', ''d'']"
  "map b_alive (getStandings engine_five) = [True, True, True, False, False]"
  "map b_rank (getStandings engine_five) = [1, 2, 3, 4, 5]"
  "map b_score (getStandings engine_five) = [40, 10, 10, 500, 0]"
  "map b_length (getStandings engine_five) = [10, 15, 12, 10, 10]"
  "map b_score (lb_alive (getLeaderboard engine_five)) = [40, 10, 10]"
  "map b_deathTick (lb_dead (getLeaderboard engine_five)) = [Some 9, Some 7]"
  by (simp_all add: getLeaderboard_def getStandings_def engine_five_def new_engine_def
        snake_literal_def js_sort_def cmp_alive_def cmp_dead_def cmp_standing_def tick_or_0_def
        List.enumerate_eq_zip alive_entry_def dead_entry_def standing_entry_def
        INITIAL_SNAKE_LENGTH_def)

theorem leaderboard_standings_order_witness:
  "sorted_wrt by_score_length (lb_alive (getLeaderboard engine_five)) \<and>
   map b_id (lb_alive (getLeaderboard engine_five)) = [''e'', ''c'', ''a''] \<and>
   map b_score (lb_alive (getLeaderboard engine_five)) = [40, 10, 10] \<and>
   map b_id (lb_dead (getLeaderboard engine_five)) = [''d'', ''b''] \<and>
   map b_deathTick (lb_dead (getLeaderboard engine_five)) = [Some 9, Some 7] \<and>
   map b_id (getStandings engine_five) = [''e'', ''c'', ''a'', ''b'', ''d''] \<and>
   map b_alive (getStandings engine_five) = [True, True, True, False, False] \<and>
   map b_score (getStandings engine_five) = [40, 10, 10, 500, 0] \<and>
   map b_length (getStandings engine_five) = [10, 15, 12, 10, 10]"
  using leaderboard_standings_order [of engine_five] board_five by simp

section \<open>Angle normalisation\<close>

lemma round_even_err: "\<bar>of_int (round_even y) - y\<bar> \<le> 1 / 2"
  unfolding round_even_def Let_def by (auto simp: abs_le_iff)

lemma fl_err:
  assumes "\<bar>x\<bar> < 2 ^ 53"
  shows "\<bar>fl x - x\<bar> \<le> 1 / 2"
proof (cases "x = 0")
  case True
  then show ?thesis by (simp add: fl_def)
next
  case False
  define ex where "ex = max (\<lfloor>log 2 \<bar>x\<bar>\<rfloor> - 52) (- 1074)"
  define ulp :: real where "ulp = 2 powr (of_int ex)"
  have "log 2 \<bar>x\<bar> < 53"
    using assms False by (simp add: log_less_iff powr_realpow [symmetric])
  then have "\<lfloor>log 2 \<bar>x\<bar>\<rfloor> < 53" by (simp add: floor_less_iff)
  then have "ex \<le> 0" by (simp add: ex_def)
  then have "(2::real) powr (of_int ex) \<le> 2 powr 0" by (intro powr_mono) simp_all
  then have u: "0 < ulp" "ulp \<le> 1" by (simp_all add: ulp_def)
  have f: "fl x = of_int (round_even (x / ulp)) * ulp"
    using False by (simp add: fl_def Let_def ulp_def ex_def)
  have "fl x - x = (of_int (round_even (x / ulp)) - x / ulp) * ulp"
    using u(1) by (simp add: f field_simps)
  then have "\<bar>fl x - x\<bar> = \<bar>of_int (round_even (x / ulp)) - x / ulp\<bar> * ulp"
    using u(1) by (simp add: abs_mult)
  also have "\<dots> \<le> (1 / 2) * 1"
    using round_even_err [of "x / ulp"] u by (intro mult_mono) simp_all
  finally show ?thesis by simp
qed


lemma norm_down_returns:
  assumes "d \<le> 2 ^ 52"
  shows "\<exists>r. norm_down d = Some r \<and> r \<le> MATH_PI \<and> (d \<le> MATH_PI \<longrightarrow> r = d) \<and>
             (MATH_PI < d \<longrightarrow> - 5 \<le> r)"
  using assms
proof (induction "nat \<lceil>d\<rceil>" arbitrary: d rule: less_induct)
  case less
  show ?case
  proof (cases "d > MATH_PI")
    case False
    then show ?thesis by (subst norm_down.simps) simp
  next
    case True
    let ?x = "d - TWO_PI"
    have p: "3 < MATH_PI" "MATH_PI < 4" "TWO_PI = MATH_PI * 2" by (simp_all add: MATH_PI_def TWO_PI_def)
    have "\<bar>?x\<bar> < 2 ^ 53" using True less.prems p by (simp add: abs_less_iff)
    from fl_err [OF this] have e: "fl ?x \<le> ?x + 1 / 2" "?x - 1 / 2 \<le> fl ?x"
      by linarith+
    have le: "fl ?x \<le> d - 5" using e(1) p by simp
    have lo: "- 5 \<le> fl ?x" using e(2) True p by simp
    have "\<lceil>fl ?x\<rceil> \<le> \<lceil>d - 5\<rceil>" using le by (rule ceiling_mono)
    moreover have "0 < \<lceil>d\<rceil>" using True p by (simp add: ceiling_less_iff) 
    ultimately have m: "nat \<lceil>fl ?x\<rceil> < nat \<lceil>d\<rceil>" by simp
    have b: "fl ?x \<le> 2 ^ 52" using le less.prems by simp
    from less.hyps [OF m b] obtain r where
      r: "norm_down (fl ?x) = Some r" "r \<le> MATH_PI" "fl ?x \<le> MATH_PI \<longrightarrow> r = fl ?x"
         "MATH_PI < fl ?x \<longrightarrow> - 5 \<le> r"
      by blast
    have "- 5 \<le> r" using r(3,4) lo by (cases "fl ?x \<le> MATH_PI") simp_all
    moreover have "norm_down d = Some r" using True r(1) by (subst norm_down.simps) simp
    ultimately show ?thesis using r(2) True by simp
  qed
qed

lemma norm_up_returns:
  assumes "- (2 ^ 52) \<le> d"
  shows "\<exists>r. norm_up d = Some r \<and> - MATH_PI \<le> r \<and> (- MATH_PI \<le> d \<longrightarrow> r = d) \<and>
             (d < - MATH_PI \<longrightarrow> r \<le> 5)"
  using assms
proof (induction "nat \<lceil>- d\<rceil>" arbitrary: d rule: less_induct)
  case less
  show ?case
  proof (cases "d < - MATH_PI")
    case False
    then show ?thesis by (subst norm_up.simps) simp
  next
    case True
    let ?x = "d + TWO_PI"
    have p: "3 < MATH_PI" "MATH_PI < 4" "TWO_PI = MATH_PI * 2" by (simp_all add: MATH_PI_def TWO_PI_def)
    have "\<bar>?x\<bar> < 2 ^ 53" using True less.prems p by (simp add: abs_less_iff)
    from fl_err [OF this] have e: "fl ?x \<le> ?x + 1 / 2" "?x - 1 / 2 \<le> fl ?x"
      by linarith+
    have ge: "d + 5 \<le> fl ?x" using e(2) p by simp
    have hi: "fl ?x \<le> 5" using e(1) True p by simp
    have "\<lceil>- fl ?x\<rceil> \<le> \<lceil>- d - 5\<rceil>" using ge by (intro ceiling_mono) simp
    moreover have "0 < \<lceil>- d\<rceil>" using True p by (simp add: ceiling_less_iff)
    ultimately have m: "nat \<lceil>- fl ?x\<rceil> < nat \<lceil>- d\<rceil>" by simp
    have b: "- (2 ^ 52) \<le> fl ?x" using ge less.prems by simp
    from less.hyps [OF m b] obtain r where
      r: "norm_up (fl ?x) = Some r" "- MATH_PI \<le> r" "- MATH_PI \<le> fl ?x \<longrightarrow> r = fl ?x"
         "fl ?x < - MATH_PI \<longrightarrow> r \<le> 5"
      by blast
    have "r \<le> 5" using r(3,4) hi by (cases "- MATH_PI \<le> fl ?x") simp_all
    moreover have "norm_up d = Some r" using True r(1) by (subst norm_up.simps) simp
    ultimately show ?thesis using r(2) True by simp
  qed
qed

lemma norm_down_stuck:
  assumes "MATH_PI < d" "fl (d - TWO_PI) = d"
  shows "norm_down d = None"
proof (cases "norm_down d")
  case (Some y)
  then have "d \<noteq> d"
  proof (rule norm_down.raw_induct [where P = "\<lambda>x y. x \<noteq> d", rotated])
    fix f x y
    assume ih: "\<And>x y. f x = Some y \<Longrightarrow> x \<noteq> d"
      and st: "(if MATH_PI < x then f (fl (x - TWO_PI)) else Some x) = Some y"
    show "x \<noteq> d"
    proof
      assume "x = d"
      then have "f d = Some y" using st assms by simp
      from ih [OF this] show False by simp
    qed
  qed
  then show ?thesis by simp
qed simp

text \<open>In doubles, subtracting \<^verbatim>\<open>TWO_PI\<close> from \<open>10\<^sup>1\<^sup>7\<close> returns \<open>10\<^sup>1\<^sup>7\<close>: the
  numbers from \<open>2\<^sup>5\<^sup>6\<close> to \<open>2\<^sup>5\<^sup>7\<close> are 16 apart.\<close>

lemma fl_big: "fl (100000000000000000 - TWO_PI) = 100000000000000000"
proof -
  let ?x = "100000000000000000 - TWO_PI :: real"
  have p: "0 < TWO_PI" "TWO_PI < 8" by (simp_all add: MATH_PI_def TWO_PI_def)
  have x: "0 < ?x" "?x \<noteq> 0" "\<bar>?x\<bar> = ?x" using p by simp_all
  have "2 powr 56 \<le> ?x" "?x < 2 powr 57" using p by simp_all
  then have "56 \<le> log 2 ?x" "log 2 ?x < 57"
    using x(1) by (simp_all add: le_log_iff log_less_iff)
  then have l: "\<lfloor>log 2 ?x\<rfloor> = 56" by (simp add: floor_eq_iff)
  have fr: "\<lfloor>?x / 16\<rfloor> = 6249999999999999" using p by (simp add: floor_eq_iff)
  have r: "round_even (?x / 16) = 6250000000000000"
    unfolding round_even_def Let_def fr using p by simp
  have "fl ?x = of_int (round_even (?x / 2 powr of_int (max (\<lfloor>log 2 \<bar>?x\<bar>\<rfloor> - 52) (- 1074)))) *
                  2 powr of_int (max (\<lfloor>log 2 \<bar>?x\<bar>\<rfloor> - 52) (- 1074))"
    unfolding fl_def Let_def using x(2) by (simp only: if_False)
  also have "\<dots> = of_int (round_even (?x / 16)) * 16"
    unfolding x(3) l by simp
  also have "\<dots> = 100000000000000000" unfolding r by simp
  finally show ?thesis .
qed

lemma norm_down_big: "norm_down 100000000000000000 = None"
  by (rule norm_down_stuck) (simp add: MATH_PI_def, rule fl_big)

lemma js_trunc_err: "\<bar>x - of_int (js_trunc x)\<bar> < 1"
  unfolding js_trunc_def by (cases "0 \<le> x") (simp_all add: abs_less_iff, linarith+)

lemma js_fmod_bound:
  assumes "0 < b"
  shows "\<bar>js_fmod a b\<bar> < b"
proof -
  have "js_fmod a b = b * (a / b - of_int (js_trunc (a / b)))"
    using assms by (simp add: js_fmod_def field_simps)
  then have "\<bar>js_fmod a b\<bar> = b * \<bar>a / b - of_int (js_trunc (a / b))\<bar>"
    using assms by (simp add: abs_mult)
  also have "\<dots> < b * 1"
    using assms js_trunc_err [of "a / b"] by (intro mult_strict_left_mono) simp_all
  finally show ?thesis by simp
qed

lemma turn_range:
  assumes "turn s = Some a"
  shows "\<bar>a\<bar> < TWO_PI"
proof -
  have p: "0 < TWO_PI" by (simp add: TWO_PI_def MATH_PI_def)
  from assms obtain y where "a = js_fmod y TWO_PI"
    by (auto simp: turn_def Let_def split: option.splits)
  then show ?thesis using js_fmod_bound [OF p] by simp
qed

text \<open>The normalisation loops end when both angles are at most \<open>2\<^sup>5\<^sup>0\<close> in size.\<close>

lemma turn_total:
  assumes "\<bar>angle s\<bar> \<le> 2 ^ 50" "\<bar>targetAngle s\<bar> \<le> 2 ^ 50"
  shows "\<exists>a. turn s = Some a"
proof -
  let ?d = "targetAngle s - angle s"
  have d: "\<bar>?d\<bar> \<le> 2 ^ 51" using assms by (simp add: abs_le_iff)
  then have "\<bar>?d\<bar> < 2 ^ 53" by simp
  from fl_err [OF this] have "fl ?d \<le> ?d + 1 / 2" "?d - 1 / 2 \<le> fl ?d" by linarith+
  then have b: "fl ?d \<le> 2 ^ 52" "- (2 ^ 52) \<le> fl ?d" using d by (simp_all add: abs_le_iff)
  from norm_down_returns [OF b(1)] obtain r where
    r: "norm_down (fl ?d) = Some r" "fl ?d \<le> MATH_PI \<longrightarrow> r = fl ?d" "MATH_PI < fl ?d \<longrightarrow> - 5 \<le> r"
    by blast
  have "- (2 ^ 52) \<le> r" using r(2,3) b(2) by (cases "fl ?d \<le> MATH_PI") simp_all
  from norm_up_returns [OF this] obtain r' where "norm_up r = Some r'" by blast
  then show ?thesis using r(1) by (simp add: turn_def Let_def)
qed


subsection \<open>The phases of a tick\<close>

lemma same_world_refl: "same_world e e"
  by (simp add: same_world_def)

lemma same_world_trans: "same_world a b \<Longrightarrow> same_world b c \<Longrightarrow> same_world a c"
  by (simp add: same_world_def)

lemma keeps_body_refl: "keeps_body s s"
  by (simp add: keeps_body_def)

lemma keeps_body_trans:
  assumes ab: "keeps_body a b" and bc: "keeps_body b c"
  shows "keeps_body a c"
proof (cases "alive a")
  case False
  then have "b = a" using ab by (simp add: keeps_body_def)
  then show ?thesis using bc by simp
next
  case True
  then show ?thesis using ab bc by (simp add: keeps_body_def)
qed

lemma keeps_life_refl: "keeps_life s s"
  by (simp add: keeps_life_def keeps_body_refl)

lemma keeps_life_trans:
  assumes ab: "keeps_life a b" and bc: "keeps_life b c"
  shows "keeps_life a c"
proof -
  have "keeps_body a c" using ab bc keeps_body_trans unfolding keeps_life_def by blast
  then show ?thesis using ab bc by (simp add: keeps_life_def)
qed

lemma snakes_rel_refl: "(\<And>s. R s s) \<Longrightarrow> snakes_rel R e e"
  by (simp add: snakes_rel_def same_world_refl split: option.splits)

lemma snakes_relD:
  "snakes_rel R e e' \<Longrightarrow> map_of (snakes e) k = Some s \<Longrightarrow>
   \<exists>s'. map_of (snakes e') k = Some s' \<and> R s s'"
  unfolding snakes_rel_def by (auto split: option.splits)

lemma snakes_rel_None:
  assumes "snakes_rel R e e'" "map_of (snakes e) k = None"
  shows "map_of (snakes e') k = None"
proof -
  have "case map_of (snakes e) k of None \<Rightarrow> map_of (snakes e') k = None
          | Some s \<Rightarrow> (\<exists>s'. map_of (snakes e') k = Some s' \<and> R s s')"
    using assms(1) unfolding snakes_rel_def by blast
  then show ?thesis using assms(2) by simp
qed

lemma snakes_relD2:
  assumes "snakes_rel R e e'" "map_of (snakes e') k = Some s'"
  shows "\<exists>s. map_of (snakes e) k = Some s \<and> R s s'"
proof (cases "map_of (snakes e) k")
  case None
  then show ?thesis using snakes_rel_None [OF assms(1)] assms(2) by simp
next
  case (Some s)
  then show ?thesis using snakes_relD [OF assms(1) Some] assms(2) by simp
qed

lemma snakes_rel_world: "snakes_rel R e e' \<Longrightarrow> same_world e e'"
  by (simp add: snakes_rel_def)

lemma snakes_relI:
  assumes "same_world e e'"
    and "\<And>k. map_of (snakes e) k = None \<Longrightarrow> map_of (snakes e') k = None"
    and "\<And>k s. map_of (snakes e) k = Some s \<Longrightarrow> \<exists>s'. map_of (snakes e') k = Some s' \<and> R s s'"
  shows "snakes_rel R e e'"
  unfolding snakes_rel_def using assms by (auto split: option.splits)

lemma snakes_rel_trans:
  assumes tr: "\<And>a b c. R a b \<Longrightarrow> R b c \<Longrightarrow> R a c"
    and ab: "snakes_rel R a b" and bc: "snakes_rel R b c"
  shows "snakes_rel R a c"
proof (rule snakes_relI)
  show "same_world a c"
    using snakes_rel_world [OF ab] snakes_rel_world [OF bc] by (rule same_world_trans)
next
  fix k assume "map_of (snakes a) k = None"
  then show "map_of (snakes c) k = None"
    using snakes_rel_None [OF ab] snakes_rel_None [OF bc] by blast
next
  fix k s assume "map_of (snakes a) k = Some s"
  from snakes_relD [OF ab this] obtain s1 where s1: "map_of (snakes b) k = Some s1" "R s s1"
    by blast
  from snakes_relD [OF bc s1(1)] obtain s2 where s2: "map_of (snakes c) k = Some s2" "R s1 s2"
    by blast
  show "\<exists>s'. map_of (snakes c) k = Some s' \<and> R s s'"
    using s2(1) tr [OF s1(2) s2(2)] by blast
qed

lemma snakes_rel_mono:
  assumes "\<And>s s'. R s s' \<Longrightarrow> Q s s'" and r: "snakes_rel R e e'"
  shows "snakes_rel Q e e'"
proof (rule snakes_relI)
  show "same_world e e'" using r by (rule snakes_rel_world)
next
  fix k assume "map_of (snakes e) k = None"
  then show "map_of (snakes e') k = None" using snakes_rel_None [OF r] by blast
next
  fix k s assume "map_of (snakes e) k = Some s"
  from snakes_relD [OF r this] assms(1)
  show "\<exists>s'. map_of (snakes e') k = Some s' \<and> Q s s'" by blast
qed

lemma snakes_rel_update:
  assumes rf: "\<And>s. R s s"
    and k: "map_of (snakes e) k = Some s" and r: "R s s'"
    and sn: "snakes e' = AList.update k s' (snakes e)"
    and w: "tick e' = tick e" "centerX e' = centerX e" "centerY e' = centerY e"
        "boundaryRadius e' = boundaryRadius e" "worldSize e' = worldSize e"
  shows "snakes_rel R e e'"
proof (rule snakes_relI)
  show "same_world e e'"
    using k sn w by (simp add: same_world_def AList.update_keys map_of_Some_key)
next
  fix k' assume "map_of (snakes e) k' = None"
  then show "map_of (snakes e') k' = None" using k by (auto simp: sn AList.update_conv')
next
  fix k' s0 assume "map_of (snakes e) k' = Some s0"
  then show "\<exists>s'. map_of (snakes e') k' = Some s' \<and> R s0 s'"
    using k r rf by (cases "k' = k") (simp_all add: sn AList.update_conv')
qed

lemma snakes_rel_same:
  assumes rf: "\<And>s. R s s"
    and "snakes e' = snakes e" "same_world e e'"
  shows "snakes_rel R e e'"
  using assms by (simp add: snakes_rel_def split: option.splits)

lemma for_each_rel:
  assumes rf: "\<And>e. Q e e"
    and tr: "\<And>a b c. Q a b \<Longrightarrow> Q b c \<Longrightarrow> Q a c"
    and step: "\<And>k e e'. f k e = Inr e' \<Longrightarrow> Q e e'"
  shows "for_each f ks e = Inr e' \<Longrightarrow> Q e e'"
proof (induction ks arbitrary: e)
  case Nil
  then show ?case using rf by simp
next
  case (Cons k ks)
  then obtain e1 where e1: "f k e = Inr e1" and rest: "for_each f ks e1 = Inr e'"
    by (auto split: sum.splits)
  from step [OF e1] Cons.IH [OF rest] show ?case by (rule tr)
qed

lemma for_each_inv:
  assumes step: "\<And>k e e'. I e \<Longrightarrow> f k e = Inr e' \<Longrightarrow> I e'"
  shows "I e \<Longrightarrow> for_each f ks e = Inr e' \<Longrightarrow> I e'"
proof (induction ks arbitrary: e)
  case Nil
  then show ?case by simp
next
  case (Cons k ks)
  then obtain e1 where e1: "f k e = Inr e1" and rest: "for_each f ks e1 = Inr e'"
    by (auto split: sum.splits)
  from step [OF Cons.prems(1) e1] rest show ?case by (rule Cons.IH)
qed

lemma for_each_establish:
  assumes est: "\<And>e e'. f k e = Inr e' \<Longrightarrow> I e'"
    and pres: "\<And>k' e e'. I e \<Longrightarrow> f k' e = Inr e' \<Longrightarrow> I e'"
  shows "k \<in> set ks \<Longrightarrow> for_each f ks e = Inr e' \<Longrightarrow> I e'"
proof (induction ks arbitrary: e)
  case Nil
  then show ?case by simp
next
  case (Cons a ks)
  then obtain e1 where e1: "f a e = Inr e1" and rest: "for_each f ks e1 = Inr e'"
    by (auto split: sum.splits)
  show ?case
  proof (cases "a = k")
    case True
    then have "I e1" using est e1 by simp
    then show ?thesis using rest pres for_each_inv [of I f] by blast
  next
    case False
    then have "k \<in> set ks" using Cons.prems(1) by simp
    then show ?thesis using rest by (rule Cons.IH)
  qed
qed

lemma for_each_total:
  assumes step: "\<And>k e. I e \<Longrightarrow> \<exists>e'. f k e = Inr e' \<and> I e'"
  shows "I e \<Longrightarrow> \<exists>e'. for_each f ks e = Inr e' \<and> I e'"
proof (induction ks arbitrary: e)
  case Nil
  then show ?case by simp
next
  case (Cons k ks)
  from step [OF Cons.prems] obtain e1 where e1: "f k e = Inr e1" "I e1" by blast
  from Cons.IH [OF e1(2)] e1(1) show ?case by simp
qed

lemma keeps_status_refl: "keeps_status s s"
  by (simp add: keeps_status_def)

lemma keeps_status_trans:
  assumes ab: "keeps_status a b" and bc: "keeps_status b c"
  shows "keeps_status a c"
proof (cases "alive a")
  case False
  then have "b = a" using ab by (simp add: keeps_status_def)
  then show ?thesis using bc by simp
next
  case True
  then show ?thesis using ab bc by (simp add: keeps_status_def)
qed

lemma grow_trim_fields:
  "alive (grow_trim s) = alive s \<and> activePowerups (grow_trim s) = activePowerups s \<and>
   boosting (grow_trim s) = boosting s \<and> deathCause (grow_trim s) = deathCause s \<and>
   deathTick (grow_trim s) = deathTick s \<and> killedBy (grow_trim s) = killedBy s \<and>
   score (grow_trim s) = score s \<and> kills (grow_trim s) = kills s \<and>
   angle (grow_trim s) = angle s \<and> targetAngle (grow_trim s) = targetAngle s"
  by (simp add: grow_trim_def Let_def)

lemma grow_trim_bound:
  "length (segments (grow_trim s)) \<le> MAX_SNAKE_SEGMENTS \<and>
   length (segments (grow_trim s)) \<le> snake_length (grow_trim s) + growPending (grow_trim s)"
  by (simp add: grow_trim_def Let_def MAX_SNAKE_SEGMENTS_def min_def)

lemma grow_trim_nonempty:
  "segments s \<noteq> [] \<Longrightarrow> 1 \<le> snake_length s + growPending s \<Longrightarrow>
   segments (grow_trim s) \<noteq> [] \<and> 1 \<le> snake_length (grow_trim s) + growPending (grow_trim s)"
  by (cases "segments s") (auto simp: grow_trim_def Let_def MAX_SNAKE_SEGMENTS_def min_def)

lemma boost_cost_fields:
  "alive (fst (boost_cost cb tk s)) = alive s \<and>
   activePowerups (fst (boost_cost cb tk s)) = activePowerups s \<and>
   boosting (fst (boost_cost cb tk s)) = boosting s \<and>
   deathCause (fst (boost_cost cb tk s)) = deathCause s \<and>
   deathTick (fst (boost_cost cb tk s)) = deathTick s \<and>
   killedBy (fst (boost_cost cb tk s)) = killedBy s \<and>
   score (fst (boost_cost cb tk s)) = score s \<and> kills (fst (boost_cost cb tk s)) = kills s \<and>
   segments (fst (boost_cost cb tk s)) = segments s \<and>
   growPending (fst (boost_cost cb tk s)) = growPending s \<and>
   angle (fst (boost_cost cb tk s)) = angle s \<and>
   targetAngle (fst (boost_cost cb tk s)) = targetAngle s"
  by (simp add: boost_cost_def)

lemma boost_cost_length:
  "snake_length (fst (boost_cost cb tk s)) =
     (if cb \<and> tk mod BOOST_COST_INTERVAL = 0 \<and> snake_length s > INITIAL_SNAKE_LENGTH + 3
      then snake_length s - 1 else snake_length s)"
  by (simp add: boost_cost_def)

lemma ghost_wrap_fields:
  assumes "ghost_wrap e s = Inr s'"
  shows "alive s' = alive s \<and> activePowerups s' = activePowerups s \<and>
   boosting s' = boosting s \<and> deathCause s' = deathCause s \<and>
   deathTick s' = deathTick s \<and> killedBy s' = killedBy s \<and>
   score s' = score s \<and> kills s' = kills s \<and> snake_length s' = snake_length s \<and>
   growPending s' = growPending s \<and> length (segments s') = length (segments s) \<and>
   angle s' = angle s \<and> targetAngle s' = targetAngle s"
  using assms
  by (auto simp: ghost_wrap_def Let_def split: if_splits list.splits)

lemma ghost_wrap_total: "segments s \<noteq> [] \<Longrightarrow> \<exists>s'. ghost_wrap e s = Inr s'"
  by (cases "segments s") (simp_all add: ghost_wrap_def Let_def)

lemma stepped_fields:
  "alive (stepped a s) = alive s \<and> activePowerups (stepped a s) = activePowerups s \<and>
   boosting (stepped a s) = boosting s \<and> deathCause (stepped a s) = deathCause s \<and>
   deathTick (stepped a s) = deathTick s \<and> killedBy (stepped a s) = killedBy s \<and>
   score (stepped a s) = score s \<and> kills (stepped a s) = kills s \<and>
   snake_length (stepped a s) = snake_length s \<and> growPending (stepped a s) = growPending s \<and>
   targetAngle (stepped a s) = targetAngle s \<and>
   (segments s \<noteq> [] \<longrightarrow> segments (stepped a s) \<noteq> [] \<and> angle (stepped a s) = a)"
  by (simp add: stepped_def split: list.splits)

lemma move_one_Inr:
  assumes "move_one e s = Inr (s3, crumbs)"
  shows "\<exists>a. turn s = Some a \<and> segments s \<noteq> [] \<and>
         ghost_wrap e (fst (boost_cost (canBoost s) (tick e) (grow_trim (stepped a s)))) = Inr s3 \<and>
         crumbs = snd (boost_cost (canBoost s) (tick e) (grow_trim (stepped a s)))"
proof (cases "turn s")
  case None
  then show ?thesis using assms by (simp add: move_one_def)
next
  case (Some a)
  show ?thesis
    using assms unfolding move_one_def Some Let_def stepped_def
    by (cases "segments s") (simp_all add: split_def split: sum.splits)
qed

lemma move_one_status:
  assumes m: "move_one e s = Inr (s3, crumbs)"
  shows "alive s3 = alive s \<and> activePowerups s3 = activePowerups s \<and>
   boosting s3 = boosting s \<and> deathCause s3 = deathCause s \<and>
   deathTick s3 = deathTick s \<and> killedBy s3 = killedBy s \<and>
   score s3 = score s \<and> kills s3 = kills s"
proof -
  from move_one_Inr [OF m] obtain a where
    g: "ghost_wrap e (fst (boost_cost (canBoost s) (tick e) (grow_trim (stepped a s)))) = Inr s3"
    by blast
  show ?thesis
    using ghost_wrap_fields [OF g]
    by (simp add: boost_cost_fields grow_trim_fields stepped_fields)
qed

lemma move_one_keeps_status: "move_one e s = Inr (s3, crumbs) \<Longrightarrow> alive s \<Longrightarrow> keeps_status s s3"
  using move_one_status [of e s s3 crumbs] by (simp add: keeps_status_def)

lemma move_one_bound:
  assumes m: "move_one e s = Inr (s3, crumbs)"
  shows "seg_bound (tick e) s3"
proof -
  from move_one_Inr [OF m] obtain a where
    g: "ghost_wrap e (fst (boost_cost (canBoost s) (tick e) (grow_trim (stepped a s)))) = Inr s3"
    by blast
  let ?s0 = "stepped a s"
  let ?s1 = "grow_trim ?s0"
  let ?s2 = "fst (boost_cost (canBoost s) (tick e) ?s1)"
  have b1: "length (segments ?s1) \<le> MAX_SNAKE_SEGMENTS"
    "length (segments ?s1) \<le> snake_length ?s1 + growPending ?s1"
    using grow_trim_bound [of ?s0] by simp_all
  have f2: "segments ?s2 = segments ?s1" "growPending ?s2 = growPending ?s1"
    "boosting ?s2 = boosting s"
    by (simp_all add: boost_cost_fields grow_trim_fields stepped_fields)
  have l2: "snake_length ?s2 =
     (if canBoost s \<and> tick e mod BOOST_COST_INTERVAL = 0 \<and> snake_length ?s1 > INITIAL_SNAKE_LENGTH + 3
      then snake_length ?s1 - 1 else snake_length ?s1)"
    by (rule boost_cost_length)
  have f3: "length (segments s3) = length (segments ?s2)" "growPending s3 = growPending ?s2"
    "snake_length s3 = snake_length ?s2" "boosting s3 = boosting ?s2"
    using ghost_wrap_fields [OF g] by simp_all
  show ?thesis
    unfolding seg_bound_def f3 f2 l2 using b1
    by (auto simp: canBoost_def)
qed

lemma move_one_ok:
  assumes m: "move_one e s = Inr (s3, crumbs)" and ok: "snake_ok s" and a: "alive s"
  shows "snake_ok s3"
proof -
  from move_one_Inr [OF m] obtain t where t: "turn s = Some t" "segments s \<noteq> []" and
    g: "ghost_wrap e (fst (boost_cost (canBoost s) (tick e) (grow_trim (stepped t s)))) = Inr s3"
    by blast
  let ?s0 = "stepped t s"
  let ?s1 = "grow_trim ?s0"
  let ?s2 = "fst (boost_cost (canBoost s) (tick e) ?s1)"
  have n1: "segments ?s1 \<noteq> []" "1 \<le> snake_length ?s1 + growPending ?s1"
    using grow_trim_nonempty [of ?s0] ok a by (simp_all add: snake_ok_def stepped_fields)
  have f2: "segments ?s2 = segments ?s1" "growPending ?s2 = growPending ?s1"
    by (simp_all add: boost_cost_fields)
  have l2: "1 \<le> snake_length ?s2 + growPending ?s2"
    unfolding f2 boost_cost_length using n1(2) by (auto simp: INITIAL_SNAKE_LENGTH_def)
  have f3: "length (segments s3) = length (segments ?s2)" "growPending s3 = growPending ?s2"
    "snake_length s3 = snake_length ?s2"
    using ghost_wrap_fields [OF g] by simp_all
  have an: "angle s3 = t" "targetAngle s3 = targetAngle s"
    using ghost_wrap_fields [OF g] t(2)
    by (simp_all add: boost_cost_fields grow_trim_fields stepped_fields)
  have "\<bar>t\<bar> < TWO_PI" using t(1) by (rule turn_range)
  then have "\<bar>t\<bar> \<le> 2 ^ 50" by (simp add: TWO_PI_def MATH_PI_def)
  then have ab: "\<bar>angle s3\<bar> \<le> 2 ^ 50" "\<bar>targetAngle s3\<bar> \<le> 2 ^ 50"
    using an ok a by (simp_all add: snake_ok_def)
  have "segments s3 \<noteq> []" using f3(1) f2(1) n1(1) by (metis length_0_conv)
  then show ?thesis using l2 f3 ab by (simp add: snake_ok_def)
qed

lemma move_one_total:
  assumes ok: "snake_ok s" and a: "alive s"
  shows "\<exists>s3 crumbs. move_one e s = Inr (s3, crumbs)"
proof -
  from ok a obtain head rest where h: "segments s = head # rest"
    by (cases "segments s") (auto simp: snake_ok_def)
  from ok a have "\<bar>angle s\<bar> \<le> 2 ^ 50" "\<bar>targetAngle s\<bar> \<le> 2 ^ 50"
    by (simp_all add: snake_ok_def)
  from turn_total [OF this] obtain t where t: "turn s = Some t" by blast
  let ?s1 = "grow_trim (stepped t s)"
  let ?s2 = "fst (boost_cost (canBoost s) (tick e) ?s1)"
  have n1: "segments ?s1 \<noteq> []"
    using grow_trim_nonempty [of "stepped t s"] ok a h by (simp add: snake_ok_def stepped_fields)
  then have "segments ?s2 \<noteq> []" by (simp add: boost_cost_fields)
  from ghost_wrap_total [OF this] obtain s3 where "ghost_wrap e ?s2 = Inr s3" by blast
  then show ?thesis
    using h by (simp add: move_one_def t Let_def split_def stepped_def)
qed

lemma moveSnake_Inr:
  assumes "moveSnake k e = Inr e'"
  shows "(map_of (snakes e) k = None \<and> e' = e) \<or>
         (\<exists>s. map_of (snakes e) k = Some s \<and> \<not> alive s \<and> e' = e) \<or>
         (\<exists>s s3 crumbs. map_of (snakes e) k = Some s \<and> alive s \<and>
            move_one e s = Inr (s3, crumbs) \<and>
            e' = e\<lparr>snakes := AList.update k s3 (snakes e), food := food e @ crumbs\<rparr>)"
  using assms unfolding moveSnake_def
  by (auto split: option.splits if_splits sum.splits prod.splits)

lemma moveSnake_rel: "moveSnake k e = Inr e' \<Longrightarrow> snakes_rel keeps_status e e'"
  apply (drule moveSnake_Inr)
  apply (elim disjE exE conjE)
    apply (simp add: snakes_rel_refl keeps_status_refl)
   apply (simp add: snakes_rel_refl keeps_status_refl)
  apply (rule snakes_rel_update [of keeps_status, OF keeps_status_refl], assumption)
        apply (erule (1) move_one_keeps_status)
       apply simp_all
  done

lemma moveSnakes_rel: "moveSnakes e = Inr e' \<Longrightarrow> snakes_rel keeps_status e e'"
  unfolding moveSnakes_def
  by (rule for_each_rel [of "snakes_rel keeps_status"])
     (auto intro: snakes_rel_refl keeps_status_refl moveSnake_rel
           elim: snakes_rel_trans [of keeps_status, rotated 1] dest: keeps_status_trans)

lemma for_each_snakes_rel:
  assumes rf: "\<And>s. R s s"
    and tr: "\<And>a b c. R a b \<Longrightarrow> R b c \<Longrightarrow> R a c"
    and step: "\<And>k e e'. f k e = Inr e' \<Longrightarrow> snakes_rel R e e'"
  shows "for_each f ks e = Inr e' \<Longrightarrow> snakes_rel R e e'"
proof (rule for_each_rel [of "snakes_rel R"])
  show "snakes_rel R a a" for a using rf by (rule snakes_rel_refl)
  show "snakes_rel R a c" if "snakes_rel R a b" "snakes_rel R b c" for a b c
    using tr that by (rule snakes_rel_trans)
  show "snakes_rel R a b" if "f k a = Inr b" for k a b using that by (rule step)
qed

lemma set_update_subset: "set (AList.update k v al) \<subseteq> insert (k, v) (set al)"
  by (induction al) auto

lemma list_all_update:
  "list_all P al \<Longrightarrow> P (k, v) \<Longrightarrow> list_all P (AList.update k v al)"
  using set_update_subset [of k v al] by (auto simp: list_all_iff)

lemma engine_ok_lookup: "engine_ok e \<Longrightarrow> map_of (snakes e) k = Some s \<Longrightarrow> snake_ok s"
  by (auto simp: engine_ok_def list_all_iff dest!: map_of_SomeD)

lemma engine_ok_update:
  "engine_ok e \<Longrightarrow> snake_ok s \<Longrightarrow> snakes e' = AList.update k s (snakes e) \<Longrightarrow> engine_ok e'"
  by (simp add: engine_ok_def list_all_update)

lemma moveSnake_total:
  assumes ok: "engine_ok e"
  shows "\<exists>e'. moveSnake k e = Inr e' \<and> engine_ok e'"
proof (cases "map_of (snakes e) k")
  case None
  then show ?thesis using ok by (simp add: moveSnake_def)
next
  case (Some s)
  show ?thesis
  proof (cases "alive s")
    case False
    then show ?thesis using ok Some by (simp add: moveSnake_def)
  next
    case True
    have sok: "snake_ok s" using ok Some by (rule engine_ok_lookup)
    from move_one_total [OF sok True] obtain s3 crumbs where
      m: "move_one e s = Inr (s3, crumbs)" by blast
    have s3: "snake_ok s3" using m sok True by (rule move_one_ok)
    have "moveSnake k e = Inr (e\<lparr>snakes := AList.update k s3 (snakes e), food := food e @ crumbs\<rparr>)"
      using Some True m by (simp add: moveSnake_def)
    moreover have "engine_ok (e\<lparr>snakes := AList.update k s3 (snakes e), food := food e @ crumbs\<rparr>)"
      using ok s3 by (rule engine_ok_update) simp
    ultimately show ?thesis by blast
  qed
qed

lemma moveSnakes_total: "engine_ok e \<Longrightarrow> \<exists>e'. moveSnakes e = Inr e' \<and> engine_ok e'"
  unfolding moveSnakes_def by (rule for_each_total [of engine_ok]) (rule moveSnake_total)

lemma moveSnake_establish:
  assumes "moveSnake k e = Inr e'" "map_of (snakes e') k = Some s'" "alive s'"
  shows "seg_bound (tick e') s'"
  using moveSnake_Inr [OF assms(1)]
proof (elim disjE exE conjE)
  assume "map_of (snakes e) k = None" "e' = e"
  then show ?thesis using assms(2) by simp
next
  fix s assume "map_of (snakes e) k = Some s" "\<not> alive s" "e' = e"
  then show ?thesis using assms(2,3) by simp
next
  fix s s3 crumbs
  assume a: "map_of (snakes e) k = Some s" "move_one e s = Inr (s3, crumbs)"
    "e' = e\<lparr>snakes := AList.update k s3 (snakes e), food := food e @ crumbs\<rparr>"
  then have "s' = s3" using assms(2) by (simp add: AList.update_conv')
  then show ?thesis using move_one_bound [OF a(2)] a(3) by simp
qed

lemma moveSnake_other:
  assumes "moveSnake k' e = Inr e'" "k' \<noteq> k"
  shows "map_of (snakes e') k = map_of (snakes e) k \<and> tick e' = tick e"
  using moveSnake_Inr [OF assms(1)] assms(2)
  by (auto simp: AList.update_conv')

lemma moveSnakes_bound:
  assumes m: "moveSnakes e = Inr e'" and k: "map_of (snakes e') k = Some s'" and a: "alive s'"
  shows "seg_bound (tick e') s'"
proof -
  let ?I = "\<lambda>e1. \<forall>s1. map_of (snakes e1) k = Some s1 \<longrightarrow> alive s1 \<longrightarrow> seg_bound (tick e1) s1"
  have est: "?I e2" if "moveSnake k e1 = Inr e2" for e1 e2
    using moveSnake_establish [OF that] by blast
  have pres: "?I e2" if "?I e1" "moveSnake k' e1 = Inr e2" for k' e1 e2
  proof (cases "k' = k")
    case True
    then show ?thesis using est that(2) by blast
  next
    case False
    then show ?thesis using moveSnake_other [OF that(2) False] that(1) by simp
  qed
  have kin: "k \<in> set (map fst (snakes e))"
  proof -
    have "map fst (snakes e') = map fst (snakes e)"
      using snakes_rel_world [OF moveSnakes_rel [OF m]] by (simp add: same_world_def)
    moreover have "k \<in> fst ` set (snakes e')" using k by (rule map_of_Some_key)
    ultimately show ?thesis by (metis set_map)
  qed
  have "?I e'"
    by (rule for_each_establish [where I = ?I and f = moveSnake and k = k,
          OF est pres kin m [unfolded moveSnakes_def]])
  then show ?thesis using k a by blast
qed

lemma killed_snake_fields:
  "\<not> alive (killed_snake tk c kid s) \<and> deathCause (killed_snake tk c kid s) = Some c \<and>
   deathTick (killed_snake tk c kid s) = Some tk \<and> killedBy (killed_snake tk c kid s) = kid \<and>
   segments (killed_snake tk c kid s) = segments s \<and>
   activePowerups (killed_snake tk c kid s) = activePowerups s \<and>
   username (killed_snake tk c kid s) = username s \<and>
   kills (killed_snake tk c kid s) = kills s \<and> score (killed_snake tk c kid s) = score s \<and>
   snake_length (killed_snake tk c kid s) = snake_length s \<and>
   growPending (killed_snake tk c kid s) = growPending s"
  by (simp add: killed_snake_def)

lemma death_step_refl: "death_step s s"
  by (simp add: death_step_def keeps_body_refl)

lemma death_step_trans:
  assumes ab: "death_step a b" and bc: "death_step b c"
  shows "death_step a c"
proof -
  have kb: "keeps_body a c" using ab bc keeps_body_trans unfolding death_step_def by blast
  have "alive c \<Longrightarrow> alive b" using bc by (simp add: death_step_def keeps_body_def)
  then show ?thesis using ab bc kb by (simp add: death_step_def)
qed

lemma death_step_credited: "alive s \<Longrightarrow> death_step s (credited s)"
  by (simp add: death_step_def keeps_body_def credited_def)

lemma death_step_killed: "alive s \<Longrightarrow> death_step s (killed_snake tk c kid s)"
  by (simp add: death_step_def keeps_body_def killed_snake_def)

lemma credit_killer_yes:
  assumes "kid = Some k" "k \<noteq> []" "map_of (snakes e) k = Some killer" "alive killer"
  shows "credit_killer p snake c kid e =
     e\<lparr>snakes := AList.update k (credited killer) (snakes e),
       events := events e @ [KillEvent k (username killer) p (username snake) c]\<rparr>"
  using assms by (simp add: credit_killer_def credited_def)

lemma credit_killer_no: "\<not> credits e kid \<Longrightarrow> credit_killer p snake c kid e = e"
  by (auto simp: credit_killer_def credits_def split: option.splits)

lemma drop_food_frame:
  "same_world e (drop_food segs e) \<and> snakes (drop_food segs e) = snakes e \<and>
   events (drop_food segs e) = events e \<and> powerups (drop_food segs e) = powerups e"
  by (induction segs arbitrary: e)
     (simp_all add: same_world_def Let_def split_def randFloat_def)

lemma snakes_drop_food: "snakes (drop_food segs e) = snakes e"
  using drop_food_frame by blast

lemma events_drop_food: "events (drop_food segs e) = events e"
  using drop_food_frame by blast

lemma applyDeath_eq:
  assumes "map_of (snakes e) p = Some s0" "alive s0"
  shows "applyDeath p c kid e =
     (let snake = killed_snake (tick e) c kid s0;
          e3 = credit_killer p snake c kid
                 (drop_food (every_third (segments s0)) (e\<lparr>snakes := AList.update p snake (snakes e)\<rparr>))
      in e3\<lparr>events := events e3 @
                    [DeathEvent p (username s0) (color s0) c kid
                       (score s0) (snake_length s0) (tick e3)]\<rparr>)"
  using assms by (simp add: applyDeath_def Let_def killed_snake_def)

lemma applyDeath_skip:
  assumes "\<not> (\<exists>s. map_of (snakes e) p = Some s \<and> alive s)"
  shows "applyDeath p c kid e = e"
  using assms by (cases "map_of (snakes e) p") (auto simp: applyDeath_def)

lemma applyDeath_nocredit:
  assumes p: "map_of (snakes e) p = Some s0" "alive s0"
    and n: "\<not> credits e kid \<or> kid = Some p"
  shows "snakes (applyDeath p c kid e) = AList.update p (killed_snake (tick e) c kid s0) (snakes e)"
    and "events (applyDeath p c kid e) = events e @
           [DeathEvent p (username s0) (color s0) c kid (score s0) (snake_length s0) (tick e)]"
    and "same_world e (applyDeath p c kid e)"
proof -
  let ?snake = "killed_snake (tick e) c kid s0"
  let ?e1 = "e\<lparr>snakes := AList.update p ?snake (snakes e)\<rparr>"
  let ?e2 = "drop_food (every_third (segments s0)) ?e1"
  have sn2: "snakes ?e2 = AList.update p ?snake (snakes e)" using drop_food_frame [where e = ?e1] by simp
  have ev2: "events ?e2 = events e" using drop_food_frame [where e = ?e1] by simp
  have w1: "same_world e ?e1" using p(1) by (simp add: same_world_def AList.update_keys map_of_Some_key)
  have w2: "same_world e ?e2" using w1 drop_food_frame [where e = ?e1] same_world_trans by blast
  have "\<not> credits ?e2 kid"
  proof (cases "kid = Some p")
    case True
    then show ?thesis
      by (simp add: credits_def snakes_drop_food AList.update_conv' killed_snake_fields)
  next
    case False
    then have "\<not> credits e kid" using n by simp
    then show ?thesis using False
      by (auto simp: credits_def snakes_drop_food AList.update_conv' split: option.splits)
  qed
  then have c: "credit_killer p ?snake c kid ?e2 = ?e2" by (rule credit_killer_no)
  have eq: "applyDeath p c kid e = ?e2\<lparr>events := events ?e2 @
                    [DeathEvent p (username s0) (color s0) c kid
                       (score s0) (snake_length s0) (tick ?e2)]\<rparr>"
    unfolding applyDeath_eq [OF p] Let_def c ..
  have t2: "tick ?e2 = tick e" using w2 by (simp add: same_world_def)
  show "snakes (applyDeath p c kid e) = AList.update p ?snake (snakes e)"
    unfolding eq using sn2 by simp
  show "events (applyDeath p c kid e) = events e @
           [DeathEvent p (username s0) (color s0) c kid (score s0) (snake_length s0) (tick e)]"
    unfolding eq using ev2 t2 by simp
  show "same_world e (applyDeath p c kid e)"
    unfolding eq using w2 by (simp add: same_world_def)
qed

lemma applyDeath_credit:
  assumes p: "map_of (snakes e) p = Some s0" "alive s0"
    and k: "kid = Some k" "k \<noteq> []" "k \<noteq> p" "map_of (snakes e) k = Some killer" "alive killer"
  shows "snakes (applyDeath p c kid e) =
           AList.update k (credited killer)
             (AList.update p (killed_snake (tick e) c kid s0) (snakes e))"
    and "events (applyDeath p c kid e) = events e @
           [KillEvent k (username killer) p (username s0) c,
            DeathEvent p (username s0) (color s0) c kid (score s0) (snake_length s0) (tick e)]"
    and "same_world e (applyDeath p c kid e)"
proof -
  let ?snake = "killed_snake (tick e) c kid s0"
  let ?e1 = "e\<lparr>snakes := AList.update p ?snake (snakes e)\<rparr>"
  let ?e2 = "drop_food (every_third (segments s0)) ?e1"
  have sn2: "snakes ?e2 = AList.update p ?snake (snakes e)" using drop_food_frame [where e = ?e1] by simp
  have ev2: "events ?e2 = events e" using drop_food_frame [where e = ?e1] by simp
  have w1: "same_world e ?e1" using p(1) by (simp add: same_world_def AList.update_keys map_of_Some_key)
  have w2: "same_world e ?e2" using w1 drop_food_frame [where e = ?e1] same_world_trans by blast
  have lk: "map_of (snakes ?e2) k = Some killer"
    using k(3,4) by (simp add: sn2 AList.update_conv')
  have c: "credit_killer p ?snake c kid ?e2 =
     ?e2\<lparr>snakes := AList.update k (credited killer) (snakes ?e2),
       events := events ?e2 @ [KillEvent k (username killer) p (username ?snake) c]\<rparr>"
    using k(1,2) lk k(5) by (rule credit_killer_yes)
  have un: "username ?snake = username s0" by (simp add: killed_snake_fields)
  let ?e3 = "?e2\<lparr>snakes := AList.update k (credited killer) (snakes ?e2),
       events := events ?e2 @ [KillEvent k (username killer) p (username ?snake) c]\<rparr>"
  have eq: "applyDeath p c kid e = ?e3\<lparr>events := events ?e3 @
                    [DeathEvent p (username s0) (color s0) c kid
                       (score s0) (snake_length s0) (tick ?e3)]\<rparr>"
    unfolding applyDeath_eq [OF p] Let_def c ..
  have t2: "tick ?e2 = tick e" using w2 by (simp add: same_world_def)
  show "snakes (applyDeath p c kid e) =
           AList.update k (credited killer) (AList.update p ?snake (snakes e))"
    unfolding eq using sn2 by simp
  show "events (applyDeath p c kid e) = events e @
           [KillEvent k (username killer) p (username s0) c,
            DeathEvent p (username s0) (color s0) c kid (score s0) (snake_length s0) (tick e)]"
    unfolding eq using ev2 t2 un by simp
  have kk: "k \<in> fst ` set (snakes ?e2)" using lk by (rule map_of_Some_key)
  have "same_world ?e2 ?e3" using kk by (simp add: same_world_def AList.update_keys)
  with w2 have "same_world e ?e3" by (rule same_world_trans)
  then show "same_world e (applyDeath p c kid e)"
    unfolding eq by (simp add: same_world_def)
qed


lemma applyDeath_cases:
  obtains (skip) "\<not> (\<exists>s. map_of (snakes e) p = Some s \<and> alive s)" "applyDeath p c kid e = e"
  | (plain) s0 where "map_of (snakes e) p = Some s0" "alive s0"
      "snakes (applyDeath p c kid e) = AList.update p (killed_snake (tick e) c kid s0) (snakes e)"
      "same_world e (applyDeath p c kid e)"
  | (credit) s0 k killer where "map_of (snakes e) p = Some s0" "alive s0"
      "k \<noteq> p" "map_of (snakes e) k = Some killer" "alive killer"
      "snakes (applyDeath p c kid e) =
         AList.update k (credited killer)
           (AList.update p (killed_snake (tick e) c kid s0) (snakes e))"
      "same_world e (applyDeath p c kid e)"
proof (cases "\<exists>s. map_of (snakes e) p = Some s \<and> alive s")
  case False
  then show ?thesis using skip applyDeath_skip by blast
next
  case True
  then obtain s0 where p: "map_of (snakes e) p = Some s0" "alive s0" by blast
  show ?thesis
  proof (cases "\<not> credits e kid \<or> kid = Some p")
    case True
    show ?thesis using plain [OF p] applyDeath_nocredit [OF p True] by blast
  next
    case False
    then obtain k killer where k: "kid = Some k" "k \<noteq> []" "k \<noteq> p"
      "map_of (snakes e) k = Some killer" "alive killer"
      by (auto simp: credits_def split: option.splits)
    show ?thesis using credit [OF p k(3,4,5)] applyDeath_credit [OF p k] by blast
  qed
qed


lemma snakes_rel_two_updates:
  assumes rf: "\<And>s. R s s" and tr: "\<And>a b c. R a b \<Longrightarrow> R b c \<Longrightarrow> R a c"
    and p: "map_of (snakes e) p = Some s0" "R s0 s0'"
    and k: "k \<noteq> p" "map_of (snakes e) k = Some killer" "R killer killer'"
    and sn: "snakes e' = AList.update k killer' (AList.update p s0' (snakes e))"
    and w: "same_world e e'"
  shows "snakes_rel R e e'"
proof (rule snakes_relI [OF w])
  fix k' assume "map_of (snakes e) k' = None"
  then show "map_of (snakes e') k' = None" using p(1) k(2) by (auto simp: sn AList.update_conv')
next
  fix k' s assume "map_of (snakes e) k' = Some s"
  then show "\<exists>s'. map_of (snakes e') k' = Some s' \<and> R s s'"
    using p k rf by (cases "k' = k"; cases "k' = p") (simp_all add: sn AList.update_conv')
qed

lemma applyDeath_rel: "snakes_rel death_step e (applyDeath p c kid e)"
proof (cases rule: applyDeath_cases [where e = e and p = p and c = c and kid = kid])
  case skip
  then show ?thesis by (simp add: snakes_rel_refl death_step_refl)
next
  case (plain s0)
  show ?thesis
    using plain(1) death_step_killed [OF plain(2)] plain(3)
    by (rule snakes_rel_update [of death_step, OF death_step_refl])
       (use plain(4) in \<open>simp_all add: same_world_def\<close>)
next
  case (credit s0 k killer)
  show ?thesis
    by (rule snakes_rel_two_updates [of death_step, OF death_step_refl death_step_trans
          credit(1) death_step_killed [OF credit(2)] credit(3,4) death_step_credited [OF credit(5)]
          credit(6,7)])
qed

lemma apply_deaths_rel: "snakes_rel death_step e (apply_deaths ds killed e)"
proof (induction ds arbitrary: killed e)
  case Nil
  then show ?case by (simp add: snakes_rel_refl death_step_refl)
next
  case (Cons d ds)
  show ?case
  proof (cases "death_id d \<in> killed")
    case True
    then show ?thesis using Cons.IH by simp
  next
    case False
    have "snakes_rel death_step e (applyDeath (death_id d) (cause d) (killerId d) e)"
      by (rule applyDeath_rel)
    moreover have "snakes_rel death_step (applyDeath (death_id d) (cause d) (killerId d) e)
       (apply_deaths ds (insert (death_id d) killed) (applyDeath (death_id d) (cause d) (killerId d) e))"
      by (rule Cons.IH)
    ultimately show ?thesis using False
      by (simp add: snakes_rel_trans [of death_step, OF death_step_trans])
  qed
qed

lemma snake_ok_dead: "\<not> alive s \<Longrightarrow> snake_ok s"
  by (simp add: snake_ok_def)

lemma applyDeath_ok: "engine_ok e \<Longrightarrow> engine_ok (applyDeath p c kid e)"
proof (cases rule: applyDeath_cases [where e = e and p = p and c = c and kid = kid])
  case skip
  then show "engine_ok e \<Longrightarrow> engine_ok (applyDeath p c kid e)" by simp
next
  case (plain s0)
  assume "engine_ok e"
  then show "engine_ok (applyDeath p c kid e)"
    using plain(3) by (simp add: engine_ok_def list_all_update snake_ok_dead killed_snake_fields)
next
  case (credit s0 k killer)
  assume ok: "engine_ok e"
  have "snake_ok killer" using ok credit(4) by (rule engine_ok_lookup)
  then have "snake_ok (credited killer)" by (simp add: snake_ok_def credited_def)
  then show "engine_ok (applyDeath p c kid e)"
    using ok credit(6) by (simp add: engine_ok_def list_all_update snake_ok_dead killed_snake_fields)
qed

lemma apply_deaths_ok: "engine_ok e \<Longrightarrow> engine_ok (apply_deaths ds killed e)"
  by (induction ds arbitrary: killed e) (simp_all add: applyDeath_ok)




lemma engine_ok_alive_heads: "engine_ok e \<Longrightarrow> alive_heads (snakes e)"
  by (auto simp: engine_ok_def alive_heads_def snake_ok_def list_all_iff)

lemma boundary_self_total:
  "alive_heads entries \<Longrightarrow> \<exists>ds'. boundary_self e entries ds = Inr ds'"
proof (induction entries arbitrary: ds)
  case Nil
  then show ?case by simp
next
  case (Cons a entries)
  obtain k s where a: "a = (k, s)" by (cases a)
  have ah: "alive_heads entries" using Cons.prems by (simp add: alive_heads_def)
  show ?case
  proof (cases "alive s")
    case False
    then show ?thesis using Cons.IH [OF ah] a by simp
  next
    case True
    then obtain h r where "segments s = h # r" using Cons.prems a
      by (cases "segments s") (auto simp: alive_heads_def)
    then show ?thesis using True a Cons.IH [OF ah] by (simp add: Let_def)
  qed
qed



lemma head_to_head_total:
  "segments A \<noteq> [] \<Longrightarrow> segments B \<noteq> [] \<Longrightarrow> \<exists>r. head_to_head i j a A b B = Inr r"
  by (cases "segments A"; cases "segments B") (simp_all add: head_to_head_def Let_def)

lemma head_to_body_total: "segments A \<noteq> [] \<Longrightarrow> \<exists>r. head_to_body a A b B = Inr r"
  by (cases "segments A") (simp_all add: head_to_body_def Let_def)

lemma cross_inner_total:
  "segments A \<noteq> [] \<Longrightarrow> numbered_heads js \<Longrightarrow> \<exists>ds'. cross_inner i a A js ds = Inr ds'"
proof (induction js arbitrary: ds)
  case Nil
  then show ?case by simp
next
  case (Cons x js)
  obtain j b B where x: "x = (j, b, B)" by (cases x)
  have nh: "numbered_heads js" using Cons.prems(2) by (simp add: numbered_heads_def)
  note IH = Cons.IH [OF Cons.prems(1) nh]
  show ?case
  proof (cases "i = j \<or> \<not> alive B \<or> deaths_some a ds")
    case True
    then show ?thesis using IH x by auto
  next
    case False
    then have B: "segments B \<noteq> []" using Cons.prems(2) x by (simp add: numbered_heads_def)
    from head_to_head_total [OF Cons.prems(1) B] obtain r where
      r: "head_to_head i j a A b B = Inr r" by blast
    from head_to_body_total [OF Cons.prems(1)] obtain r2 where
      r2: "head_to_body a A b B = Inr r2" by blast
    show ?thesis using False x r r2 IH by (cases r) simp_all
  qed
qed


lemma cross_outer_total:
  "numbered_heads entries \<Longrightarrow> numbered_heads rest \<Longrightarrow>
   \<exists>ds'. cross_outer entries rest ds = Inr ds'"
proof (induction rest arbitrary: ds)
  case Nil
  then show ?case by simp
next
  case (Cons x rest)
  obtain i a A where x: "x = (i, a, A)" by (cases x)
  have nh: "numbered_heads rest" using Cons.prems(2) by (simp add: numbered_heads_def)
  note IH = Cons.IH [OF Cons.prems(1) nh]
  show ?case
  proof (cases "\<not> alive A \<or> deaths_some a ds")
    case True
    then show ?thesis using IH x by auto
  next
    case False
    then have A: "segments A \<noteq> []" using Cons.prems(2) x by (simp add: numbered_heads_def)
    from cross_inner_total [OF A Cons.prems(1)] obtain ds1 where
      "cross_inner i a A entries ds = Inr ds1" by blast
    then show ?thesis using False x IH by simp
  qed
qed


lemma numbered_heads_enumerate: "alive_heads entries \<Longrightarrow> numbered_heads (List.enumerate n entries)"
  by (induction entries arbitrary: n) (auto simp: alive_heads_def numbered_heads_def)

lemma detect_deaths_total: "engine_ok e \<Longrightarrow> \<exists>ds. detect_deaths e = Inr ds"
proof -
  assume ok: "engine_ok e"
  have ah: "alive_heads (snakes e)" using ok by (rule engine_ok_alive_heads)
  from boundary_self_total [OF ah] obtain d1 where d1: "boundary_self e (snakes e) [] = Inr d1"
    by blast
  have nh: "numbered_heads (List.enumerate 0 (snakes e))" using ah by (rule numbered_heads_enumerate)
  from cross_outer_total [OF nh nh] obtain d2 where
    "cross_outer (List.enumerate 0 (snakes e)) (List.enumerate 0 (snakes e)) d1 = Inr d2" by blast
  then show ?thesis using d1 by (simp add: detect_deaths_def Let_def)
qed

lemma detectCollisions_total: "engine_ok e \<Longrightarrow> \<exists>e'. detectCollisions e = Inr e' \<and> engine_ok e'"
  using detect_deaths_total [of e] by (auto simp: detectCollisions_def apply_deaths_ok)

lemma detectCollisions_rel: "detectCollisions e = Inr e' \<Longrightarrow> snakes_rel death_step e e'"
  by (auto simp: detectCollisions_def apply_deaths_rel split: sum.splits)





lemma keeps_body_ok: "keeps_body s s' \<Longrightarrow> snake_ok s \<Longrightarrow> snake_ok s'"
  by (auto simp: keeps_body_def snake_ok_def)

lemma keeps_life_body: "keeps_life s s' \<Longrightarrow> keeps_body s s'"
  by (simp add: keeps_life_def)

lemma eat_one_life:
  "alive s \<Longrightarrow> alive (fst (eat_one h f (s, evs, kept))) \<and> keeps_life s (fst (eat_one h f (s, evs, kept)))"
  by (simp add: eat_one_def Let_def keeps_life_def keeps_body_def)

lemma eat_fold_life:
  "alive s \<Longrightarrow> alive (fst (foldr (eat_one h) fs (s, evs, kept))) \<and>
     keeps_life s (fst (foldr (eat_one h) fs (s, evs, kept)))"
proof (induction fs)
  case Nil
  then show ?case by (simp add: keeps_life_refl)
next
  case (Cons f fs)
  obtain s1 evs1 kept1 where r: "foldr (eat_one h) fs (s, evs, kept) = (s1, evs1, kept1)"
    by (cases "foldr (eat_one h) fs (s, evs, kept)") auto
  have s1: "alive s1" "keeps_life s s1" using Cons r by simp_all
  have "alive (fst (eat_one h f (s1, evs1, kept1))) \<and>
        keeps_life s1 (fst (eat_one h f (s1, evs1, kept1)))"
    using s1(1) by (rule eat_one_life)
  then show ?case using r s1(2) keeps_life_trans by auto
qed

lemma checkFood_snake_Inr:
  assumes "checkFood_snake k e = Inr e'"
  shows "e' = e \<or> (\<exists>s h r s1 evs kept. map_of (snakes e) k = Some s \<and> alive s \<and>
            segments s = h # r \<and>
            foldr (eat_one h) (food e) (s, [], []) = (s1, evs, kept) \<and>
            e' = e\<lparr>snakes := AList.update k s1 (snakes e), events := events e @ evs, food := kept\<rparr>)"
  using assms unfolding checkFood_snake_def
  by (auto split: option.splits if_splits list.splits prod.splits)

lemma checkFood_snake_rel: "checkFood_snake k e = Inr e' \<Longrightarrow> snakes_rel keeps_life e e'"
proof (drule checkFood_snake_Inr, elim disjE exE conjE)
  assume "e' = e"
  then show ?thesis by (simp add: snakes_rel_refl keeps_life_refl)
next
  fix s h r s1 evs kept
  assume a: "map_of (snakes e) k = Some s" "alive s"
    "foldr (eat_one h) (food e) (s, [], []) = (s1, evs, kept)"
    "e' = e\<lparr>snakes := AList.update k s1 (snakes e), events := events e @ evs, food := kept\<rparr>"
  have "keeps_life s s1" using eat_fold_life [OF a(2), of h "food e" "[]" "[]"] a(3) by simp
  with a(1) show ?thesis
    by (rule snakes_rel_update [of keeps_life, OF keeps_life_refl]) (simp_all add: a(4))
qed

lemma checkFood_rel: "checkFood e = Inr e' \<Longrightarrow> snakes_rel keeps_life e e'"
  unfolding checkFood_def
  by (rule for_each_snakes_rel [of keeps_life, OF keeps_life_refl keeps_life_trans checkFood_snake_rel])

lemma grant_powerup_life: "alive s \<Longrightarrow> keeps_life s (grant_powerup pu s)"
  by (simp add: grant_powerup_def Let_def keeps_life_def keeps_body_def split: option.splits)

lemma checkPowerupPickup_snake_Inr:
  assumes "checkPowerupPickup_snake k e = Inr e'"
  shows "e' = e \<or> (\<exists>s pu evs pus. map_of (snakes e) k = Some s \<and> alive s \<and>
            e' = e\<lparr>snakes := AList.update k (grant_powerup pu s) (snakes e),
                   events := evs, powerups := pus\<rparr>)"
  using assms unfolding checkPowerupPickup_snake_def Let_def
  by (auto split: option.splits if_splits list.splits prod.splits)

lemma checkPowerupPickup_snake_rel:
  "checkPowerupPickup_snake k e = Inr e' \<Longrightarrow> snakes_rel keeps_life e e'"
proof (drule checkPowerupPickup_snake_Inr, elim disjE exE conjE)
  assume "e' = e"
  then show ?thesis by (simp add: snakes_rel_refl keeps_life_refl)
next
  fix s pu evs pus
  assume a: "map_of (snakes e) k = Some s" "alive s"
    "e' = e\<lparr>snakes := AList.update k (grant_powerup pu s) (snakes e),
                   events := evs, powerups := pus\<rparr>"
  show ?thesis
    using a(1) grant_powerup_life [OF a(2)]
    by (rule snakes_rel_update [of keeps_life, OF keeps_life_refl]) (simp_all add: a(3))
qed

lemma checkPowerupPickup_rel: "checkPowerupPickup e = Inr e' \<Longrightarrow> snakes_rel keeps_life e e'"
  unfolding checkPowerupPickup_def
  by (rule for_each_snakes_rel [of keeps_life, OF keeps_life_refl keeps_life_trans
        checkPowerupPickup_snake_rel])

lemma tick_effects_life:
  "alive s \<Longrightarrow> keeps_life s (fst (tick_effects ts s evs))"
proof (induction ts arbitrary: s evs)
  case Nil
  then show ?case by (simp add: keeps_life_refl)
next
  case (Cons t ts)
  show ?case
  proof (cases "map_of (activePowerups s) t")
    case None
    then show ?thesis using Cons by simp
  next
    case (Some n)
    let ?s1 = "if n - 1 \<le> 0 then s\<lparr>activePowerups := AList.delete t (activePowerups s)\<rparr>
               else s\<lparr>activePowerups := AList.update t (n - 1) (activePowerups s)\<rparr>"
    have 1: "keeps_life s ?s1" "alive ?s1"
      using Cons.prems by (simp_all add: keeps_life_def keeps_body_def)
    have "\<exists>evs1. tick_effects (t # ts) s evs = tick_effects ts ?s1 evs1"
      using Some by auto
    then obtain evs1 where e: "tick_effects (t # ts) s evs = tick_effects ts ?s1 evs1" by blast
    have "keeps_life ?s1 (fst (tick_effects ts ?s1 evs1))" using 1(2) by (rule Cons.IH)
    with 1(1) show ?thesis unfolding e by (rule keeps_life_trans)
  qed
qed

lemma tickActivePowerups_snake_Inr:
  assumes "tickActivePowerups_snake k e = Inr e'"
  shows "e' = e \<or> (\<exists>s ts evs evs'. map_of (snakes e) k = Some s \<and> alive s \<and>
            e' = e\<lparr>snakes := AList.update k (fst (tick_effects ts s evs)) (snakes e),
                   events := evs'\<rparr>)"
proof (cases "map_of (snakes e) k")
  case None
  then show ?thesis using assms by (simp add: tickActivePowerups_snake_def)
next
  case (Some s)
  show ?thesis
  proof (cases "alive s")
    case False
    then show ?thesis using assms Some by (simp add: tickActivePowerups_snake_def)
  next
    case True
    obtain s1 evs1 where t: "tick_effects (remdups (map fst (activePowerups s))) s [] = (s1, evs1)"
      by (cases "tick_effects (remdups (map fst (activePowerups s))) s []") auto
    have "e' = e\<lparr>snakes := AList.update k
              (fst (tick_effects (remdups (map fst (activePowerups s))) s [])) (snakes e),
            events := events e @ evs1\<rparr>"
      using assms Some True t by (simp add: tickActivePowerups_snake_def)
    then show ?thesis using Some True by blast
  qed
qed

lemma tickActivePowerups_snake_rel:
  "tickActivePowerups_snake k e = Inr e' \<Longrightarrow> snakes_rel keeps_life e e'"
proof (drule tickActivePowerups_snake_Inr, elim disjE exE conjE)
  assume "e' = e"
  then show ?thesis by (simp add: snakes_rel_refl keeps_life_refl)
next
  fix s ts evs evs'
  assume a: "map_of (snakes e) k = Some s" "alive s"
    "e' = e\<lparr>snakes := AList.update k (fst (tick_effects ts s evs)) (snakes e), events := evs'\<rparr>"
  show ?thesis
    using a(1) tick_effects_life [OF a(2)]
    by (rule snakes_rel_update [of keeps_life, OF keeps_life_refl]) (simp_all add: a(3))
qed

lemma despawn_frame: "snakes (despawn_powerups e) = snakes e \<and> same_world e (despawn_powerups e)"
  by (simp add: despawn_powerups_def same_world_def split: prod.splits)

lemma tickActivePowerups_rel: "tickActivePowerups e = Inr e' \<Longrightarrow> snakes_rel keeps_life e e'"
proof -
  assume "tickActivePowerups e = Inr e'"
  then obtain e1 where e1: "for_each tickActivePowerups_snake (map fst (snakes e)) e = Inr e1"
    "e' = despawn_powerups e1"
    by (auto simp: tickActivePowerups_def split: sum.splits)
  have 1: "snakes_rel keeps_life e e1"
    by (rule for_each_snakes_rel [of keeps_life, OF keeps_life_refl keeps_life_trans
        tickActivePowerups_snake_rel e1(1)])
  have 2: "snakes_rel keeps_life e1 e'"
    unfolding e1(2) using despawn_frame [of e1]
    by (intro snakes_rel_same [of keeps_life, OF keeps_life_refl]) simp_all
  show ?thesis by (rule snakes_rel_trans [OF keeps_life_trans 1 2])
qed

lemma only_rng_trans: "only_rng a b \<Longrightarrow> only_rng b c \<Longrightarrow> only_rng a c"
  by (auto simp: only_rng_def)

lemma only_rng_randFloat: "only_rng e (snd (randFloat e))"
  by (simp add: only_rng_def randFloat_def Let_def) (rule exI, rule refl)

lemma only_rng_randInt: "only_rng e (snd (randInt a b e))"
  using only_rng_randFloat [of e] by (simp add: randInt_def split_def Let_def)

lemma only_rng_randomWorldPosition: "only_rng e (snd (randomWorldPosition f e))"
proof -
  have "snd (randomWorldPosition f e) = snd (randFloat (snd (randFloat e)))"
    by (simp add: randomWorldPosition_def Let_def split_def)
  then show ?thesis
    using only_rng_trans [OF only_rng_randFloat only_rng_randFloat] by simp
qed

lemma only_rng_frame:
  assumes "only_rng e e'"
  shows "same_world e e'" "snakes e' = snakes e" "events e' = events e"
    "powerups e' = powerups e" "food e' = food e"
  using assms by (auto simp: only_rng_def same_world_def)

lemma add_food_frame:
  "same_world e (add_food e) \<and> snakes (add_food e) = snakes e \<and>
   events (add_food e) = events e \<and> powerups (add_food e) = powerups e"
proof -
  let ?e1 = "snd (randomWorldPosition (9 / 10) e)"
  let ?e2 = "snd (randFloat ?e1)"
  have r: "only_rng e ?e2"
    using only_rng_trans [OF only_rng_randomWorldPosition only_rng_randFloat] .
  have f: "snakes (add_food e) = snakes ?e2" "events (add_food e) = events ?e2"
    "powerups (add_food e) = powerups ?e2" "tick (add_food e) = tick ?e2"
    "centerX (add_food e) = centerX ?e2" "centerY (add_food e) = centerY ?e2"
    "boundaryRadius (add_food e) = boundaryRadius ?e2" "worldSize (add_food e) = worldSize ?e2"
    by (simp_all add: add_food_def Let_def split_def)
  show ?thesis using f only_rng_frame [OF r] by (simp add: same_world_def)
qed

lemma maintainFood_loop_frame:
  "same_world e (maintainFood_loop n e) \<and> snakes (maintainFood_loop n e) = snakes e \<and>
   events (maintainFood_loop n e) = events e \<and> powerups (maintainFood_loop n e) = powerups e"
proof (induction n e rule: maintainFood_loop.induct)
  case (1 desired e)
  show ?case
  proof (cases "length (food e) < desired")
    case True
    then have eq: "maintainFood_loop desired e = maintainFood_loop desired (add_food e)"
      by (subst maintainFood_loop.simps) simp
    have a: "same_world e (add_food e)" "snakes (add_food e) = snakes e"
      "events (add_food e) = events e" "powerups (add_food e) = powerups e"
      using add_food_frame [of e] by simp_all
    have b: "same_world (add_food e) (maintainFood_loop desired (add_food e))"
      "snakes (maintainFood_loop desired (add_food e)) = snakes (add_food e)"
      "events (maintainFood_loop desired (add_food e)) = events (add_food e)"
      "powerups (maintainFood_loop desired (add_food e)) = powerups (add_food e)"
      using "1.IH" [OF True] by simp_all
    show ?thesis
      unfolding eq using a b same_world_trans [OF a(1) b(1)] by simp
  next
    case False
    then have "maintainFood_loop desired e = e" by (subst maintainFood_loop.simps) simp
    then show ?thesis by (simp add: same_world_refl)
  qed
qed

lemma maintainFood_rel: "snakes_rel keeps_life e (maintainFood e)"
  unfolding maintainFood_def using maintainFood_loop_frame [of e]
  by (intro snakes_rel_same [of keeps_life, OF keeps_life_refl]) simp_all

lemma maybeSpawnPowerup_frame:
  "same_world e (maybeSpawnPowerup e) \<and> snakes (maybeSpawnPowerup e) = snakes e"
proof -
  let ?e1 = "snd (randFloat e)"
  let ?e2 = "snd (randomWorldPosition (75 / 100) ?e1)"
  let ?e3 = "snd (randInt 0 2 ?e2)"
  let ?e4 = "snd (randInt 0 9999 ?e3)"
  have r1: "only_rng e ?e1" by (rule only_rng_randFloat)
  have r2: "only_rng e ?e2" using r1 only_rng_randomWorldPosition by (rule only_rng_trans)
  have r3: "only_rng e ?e3" using r2 only_rng_randInt by (rule only_rng_trans)
  have r4: "only_rng e ?e4" using r3 only_rng_randInt by (rule only_rng_trans)
  have w1: "same_world e ?e1" "snakes ?e1 = snakes e" using only_rng_frame [OF r1] by simp_all
  have w4: "same_world e ?e4" "snakes ?e4 = snakes e" using only_rng_frame [OF r4] by simp_all
  have "(maybeSpawnPowerup e = e \<or> maybeSpawnPowerup e = ?e1) \<or>
        (snakes (maybeSpawnPowerup e) = snakes ?e4 \<and> tick (maybeSpawnPowerup e) = tick ?e4 \<and>
         centerX (maybeSpawnPowerup e) = centerX ?e4 \<and> centerY (maybeSpawnPowerup e) = centerY ?e4 \<and>
         boundaryRadius (maybeSpawnPowerup e) = boundaryRadius ?e4 \<and>
         worldSize (maybeSpawnPowerup e) = worldSize ?e4)"
    by (simp add: maybeSpawnPowerup_def Let_def split_def)
  then show ?thesis
  proof (elim disjE conjE)
    assume "maybeSpawnPowerup e = e"
    then show ?thesis by (simp add: same_world_refl)
  next
    assume "maybeSpawnPowerup e = ?e1"
    then show ?thesis using w1 by simp
  next
    assume "snakes (maybeSpawnPowerup e) = snakes ?e4" "tick (maybeSpawnPowerup e) = tick ?e4"
         "centerX (maybeSpawnPowerup e) = centerX ?e4" "centerY (maybeSpawnPowerup e) = centerY ?e4"
         "boundaryRadius (maybeSpawnPowerup e) = boundaryRadius ?e4"
         "worldSize (maybeSpawnPowerup e) = worldSize ?e4"
    then show ?thesis using w4 by (simp add: same_world_def)
  qed
qed

lemma maybeSpawnPowerup_rel: "snakes_rel keeps_life e (maybeSpawnPowerup e)"
  using maybeSpawnPowerup_frame [of e]
  by (intro snakes_rel_same [of keeps_life, OF keeps_life_refl]) simp_all

lemma life_trans:
  "snakes_rel keeps_life a b \<Longrightarrow> snakes_rel keeps_life b c \<Longrightarrow> snakes_rel keeps_life a c"
  by (rule snakes_rel_trans [where R = keeps_life and b = b]) (rule keeps_life_trans)

lemma engine_ok_same_snakes: "snakes e' = snakes e \<Longrightarrow> engine_ok e \<Longrightarrow> engine_ok e'"
  by (simp add: engine_ok_def)

lemma step_ok_total:
  assumes ok: "engine_ok e"
    and none: "map_of (snakes e) k = None \<Longrightarrow> f k e = Inr e"
    and dead: "\<And>s. map_of (snakes e) k = Some s \<Longrightarrow> \<not> alive s \<Longrightarrow> f k e = Inr e"
    and live: "\<And>s h r. map_of (snakes e) k = Some s \<Longrightarrow> alive s \<Longrightarrow> segments s = h # r \<Longrightarrow>
                \<exists>e' s'. f k e = Inr e' \<and> snakes e' = AList.update k s' (snakes e) \<and> keeps_life s s'"
  shows "\<exists>e'. f k e = Inr e' \<and> engine_ok e'"
proof (cases "map_of (snakes e) k")
  case None
  then show ?thesis using none ok by simp
next
  case (Some s)
  show ?thesis
  proof (cases "alive s")
    case False
    then show ?thesis using dead [OF Some] ok by simp
  next
    case True
    have sok: "snake_ok s" using ok Some by (rule engine_ok_lookup)
    then obtain h r where h: "segments s = h # r" using True
      by (cases "segments s") (auto simp: snake_ok_def)
    from live [OF Some True h] obtain e' s' where
      e': "f k e = Inr e'" "snakes e' = AList.update k s' (snakes e)" "keeps_life s s'" by blast
    have "snake_ok s'" using keeps_life_body [OF e'(3)] sok by (rule keeps_body_ok)
    with ok have "engine_ok e'" using e'(2) by (rule engine_ok_update)
    then show ?thesis using e'(1) by blast
  qed
qed

lemma checkFood_snake_total: "engine_ok e \<Longrightarrow> \<exists>e'. checkFood_snake k e = Inr e' \<and> engine_ok e'"
proof (rule step_ok_total [where f = checkFood_snake], assumption)
  show "map_of (snakes e) k = None \<Longrightarrow> checkFood_snake k e = Inr e"
    by (simp add: checkFood_snake_def)
  show "map_of (snakes e) k = Some s \<Longrightarrow> \<not> alive s \<Longrightarrow> checkFood_snake k e = Inr e" for s
    by (simp add: checkFood_snake_def)
  fix s h r assume a: "map_of (snakes e) k = Some s" "alive s" "segments s = h # r"
  obtain s1 evs kept where f: "foldr (eat_one h) (food e) (s, [], []) = (s1, evs, kept)"
    by (cases "foldr (eat_one h) (food e) (s, [], [])") auto
  have "keeps_life s s1" using eat_fold_life [OF a(2), of h "food e" "[]" "[]"] f by simp
  then show "\<exists>e' s'. checkFood_snake k e = Inr e' \<and> snakes e' = AList.update k s' (snakes e) \<and>
               keeps_life s s'"
    using a f by (simp add: checkFood_snake_def) blast
qed

lemma checkFood_total: "engine_ok e \<Longrightarrow> \<exists>e'. checkFood e = Inr e' \<and> engine_ok e'"
  unfolding checkFood_def by (rule for_each_total [of engine_ok]) (rule checkFood_snake_total)

lemma checkPowerupPickup_snake_total:
  "engine_ok e \<Longrightarrow> \<exists>e'. checkPowerupPickup_snake k e = Inr e' \<and> engine_ok e'"
proof (rule step_ok_total [where f = checkPowerupPickup_snake], assumption)
  show "map_of (snakes e) k = None \<Longrightarrow> checkPowerupPickup_snake k e = Inr e"
    by (simp add: checkPowerupPickup_snake_def)
  show "map_of (snakes e) k = Some s \<Longrightarrow> \<not> alive s \<Longrightarrow> checkPowerupPickup_snake k e = Inr e" for s
    by (simp add: checkPowerupPickup_snake_def)
  fix s h r assume a: "map_of (snakes e) k = Some s" "alive s" "segments s = h # r"
  have t: "AList.update k s (snakes e) = snakes e" using a(1) by (rule AList.update_triv)
  show "\<exists>e' s'. checkPowerupPickup_snake k e = Inr e' \<and> snakes e' = AList.update k s' (snakes e) \<and>
               keeps_life s s'"
  proof (cases "find_last
                  (\<lambda>pu. (px h - pu_x pu) * (px h - pu_x pu) +
                        (py h - pu_y pu) * (py h - pu_y pu)
                        < (SNAKE_HEAD_RADIUS + 12) * (SNAKE_HEAD_RADIUS + 12))
                  (powerups e)")
    case None
    then have "checkPowerupPickup_snake k e = Inr e"
      using a by (simp add: checkPowerupPickup_snake_def Let_def)
    then show ?thesis using t keeps_life_refl [of s] by metis
  next
    case (Some x)
    obtain pre pu post where x: "x = (pre, pu, post)" by (cases x)
    have "\<exists>e'. checkPowerupPickup_snake k e = Inr e' \<and>
            snakes e' = AList.update k (grant_powerup pu s) (snakes e)"
      using a Some x by (simp add: checkPowerupPickup_snake_def Let_def)
    then show ?thesis using grant_powerup_life [OF a(2)] by blast
  qed
qed

lemma checkPowerupPickup_total:
  "engine_ok e \<Longrightarrow> \<exists>e'. checkPowerupPickup e = Inr e' \<and> engine_ok e'"
  unfolding checkPowerupPickup_def
  by (rule for_each_total [of engine_ok]) (rule checkPowerupPickup_snake_total)

lemma tickActivePowerups_snake_total:
  "engine_ok e \<Longrightarrow> \<exists>e'. tickActivePowerups_snake k e = Inr e' \<and> engine_ok e'"
proof (rule step_ok_total [where f = tickActivePowerups_snake], assumption)
  show "map_of (snakes e) k = None \<Longrightarrow> tickActivePowerups_snake k e = Inr e"
    by (simp add: tickActivePowerups_snake_def)
  show "map_of (snakes e) k = Some s \<Longrightarrow> \<not> alive s \<Longrightarrow> tickActivePowerups_snake k e = Inr e" for s
    by (simp add: tickActivePowerups_snake_def)
  fix s h r assume a: "map_of (snakes e) k = Some s" "alive s" "segments s = h # r"
  obtain s1 evs1 where t: "tick_effects (remdups (map fst (activePowerups s))) s [] = (s1, evs1)"
    by (cases "tick_effects (remdups (map fst (activePowerups s))) s []") auto
  have "keeps_life s s1"
    using tick_effects_life [OF a(2), of "remdups (map fst (activePowerups s))" "[]"] t by simp
  then show "\<exists>e' s'. tickActivePowerups_snake k e = Inr e' \<and>
               snakes e' = AList.update k s' (snakes e) \<and> keeps_life s s'"
    using a t by (simp add: tickActivePowerups_snake_def) blast
qed

lemma tickActivePowerups_total:
  assumes "engine_ok e"
  shows "\<exists>e'. tickActivePowerups e = Inr e' \<and> engine_ok e'"
proof -
  from for_each_total [where I = engine_ok and f = tickActivePowerups_snake
      and ks = "map fst (snakes e)", OF tickActivePowerups_snake_total assms]
  obtain e1 where e1: "for_each tickActivePowerups_snake (map fst (snakes e)) e = Inr e1"
    "engine_ok e1" by blast
  have "engine_ok (despawn_powerups e1)"
    using despawn_frame [of e1] e1(2) by (blast intro: engine_ok_same_snakes)
  then show ?thesis using e1(1) by (simp add: tickActivePowerups_def)
qed

lemma then_do_Inr: "then_do x f = Inr y \<Longrightarrow> \<exists>v. x = Inr v \<and> f v = Inr y"
  by (cases x) (simp_all add: then_do_def)

lemma update_unfold:
  "update e0 =
     then_do (moveSnakes (ticked e0)) (\<lambda>e1.
     then_do (detectCollisions e1) (\<lambda>e2.
     then_do (checkFood e2) (\<lambda>e3.
     then_do (checkPowerupPickup e3) (\<lambda>e4.
     then_do (tickActivePowerups e4) (\<lambda>e5.
       Inr (maybeSpawnPowerup (maintainFood e5),
            tick (maybeSpawnPowerup (maintainFood e5)),
            events (maybeSpawnPowerup (maintainFood e5))))))))"
  unfolding update_def Let_def ticked_def then_do_def ..

lemma update_parts:
  assumes "update e0 = Inr (e', t, evs)"
  shows "\<exists>e1 e2. moveSnakes (ticked e0) = Inr e1 \<and> detectCollisions e1 = Inr e2 \<and>
           snakes_rel keeps_life e2 e' \<and> t = tick e' \<and> evs = events e'"
proof -
  note u = assms [unfolded update_unfold]
  from then_do_Inr [OF u] obtain e1 where e1: "moveSnakes (ticked e0) = Inr e1"
    and u1: "then_do (detectCollisions e1) (\<lambda>e2.
     then_do (checkFood e2) (\<lambda>e3.
     then_do (checkPowerupPickup e3) (\<lambda>e4.
     then_do (tickActivePowerups e4) (\<lambda>e5.
       Inr (maybeSpawnPowerup (maintainFood e5),
            tick (maybeSpawnPowerup (maintainFood e5)),
            events (maybeSpawnPowerup (maintainFood e5))))))) = Inr (e', t, evs)" by blast
  from then_do_Inr [OF u1] obtain e2 where e2: "detectCollisions e1 = Inr e2"
    and u2: "then_do (checkFood e2) (\<lambda>e3.
     then_do (checkPowerupPickup e3) (\<lambda>e4.
     then_do (tickActivePowerups e4) (\<lambda>e5.
       Inr (maybeSpawnPowerup (maintainFood e5),
            tick (maybeSpawnPowerup (maintainFood e5)),
            events (maybeSpawnPowerup (maintainFood e5)))))) = Inr (e', t, evs)" by blast
  from then_do_Inr [OF u2] obtain e3 where e3: "checkFood e2 = Inr e3"
    and u3: "then_do (checkPowerupPickup e3) (\<lambda>e4.
     then_do (tickActivePowerups e4) (\<lambda>e5.
       Inr (maybeSpawnPowerup (maintainFood e5),
            tick (maybeSpawnPowerup (maintainFood e5)),
            events (maybeSpawnPowerup (maintainFood e5))))) = Inr (e', t, evs)" by blast
  from then_do_Inr [OF u3] obtain e4 where e4: "checkPowerupPickup e3 = Inr e4"
    and u4: "then_do (tickActivePowerups e4) (\<lambda>e5.
       Inr (maybeSpawnPowerup (maintainFood e5),
            tick (maybeSpawnPowerup (maintainFood e5)),
            events (maybeSpawnPowerup (maintainFood e5)))) = Inr (e', t, evs)" by blast
  from then_do_Inr [OF u4] obtain e5 where e5: "tickActivePowerups e4 = Inr e5"
    and u5: "e' = maybeSpawnPowerup (maintainFood e5)" "t = tick (maybeSpawnPowerup (maintainFood e5))"
      "evs = events (maybeSpawnPowerup (maintainFood e5))" by auto
  have "snakes_rel keeps_life e2 e'"
    unfolding u5(1)
    using life_trans [OF checkFood_rel [OF e3]
          life_trans [OF checkPowerupPickup_rel [OF e4]
          life_trans [OF tickActivePowerups_rel [OF e5]
          life_trans [OF maintainFood_rel maybeSpawnPowerup_rel]]]] .
  then show ?thesis using e1 e2 u5 by blast
qed

lemma update_world:
  assumes "update e0 = Inr (e', t, evs)"
  shows "same_world (ticked e0) e'"
proof -
  from update_parts [OF assms] obtain e1 e2 where
    p: "moveSnakes (ticked e0) = Inr e1" "detectCollisions e1 = Inr e2" "snakes_rel keeps_life e2 e'"
    by blast
  have "same_world (ticked e0) e1" using moveSnakes_rel [OF p(1)] by (rule snakes_rel_world)
  moreover have "same_world e1 e2" using detectCollisions_rel [OF p(2)] by (rule snakes_rel_world)
  moreover have "same_world e2 e'" using p(3) by (rule snakes_rel_world)
  ultimately show ?thesis using same_world_trans by blast
qed

lemma update_total:
  assumes ok: "engine_ok e0"
  shows "\<exists>e' evs. update e0 = Inr (e', tick e0 + 1, evs) \<and> engine_ok e'"
proof -
  have "engine_ok (ticked e0)" using ok by (simp add: engine_ok_def ticked_def)
  from moveSnakes_total [OF this] obtain e1 where e1: "moveSnakes (ticked e0) = Inr e1" "engine_ok e1"
    by blast
  from detectCollisions_total [OF e1(2)] obtain e2 where
    e2: "detectCollisions e1 = Inr e2" "engine_ok e2" by blast
  from checkFood_total [OF e2(2)] obtain e3 where e3: "checkFood e2 = Inr e3" "engine_ok e3" by blast
  from checkPowerupPickup_total [OF e3(2)] obtain e4 where
    e4: "checkPowerupPickup e3 = Inr e4" "engine_ok e4" by blast
  from tickActivePowerups_total [OF e4(2)] obtain e5 where
    e5: "tickActivePowerups e4 = Inr e5" "engine_ok e5" by blast
  let ?e' = "maybeSpawnPowerup (maintainFood e5)"
  have s: "snakes ?e' = snakes e5"
    using maybeSpawnPowerup_frame [of "maintainFood e5"] maintainFood_loop_frame [of e5]
    by (simp add: maintainFood_def)
  have ok': "engine_ok ?e'" using s e5(2) by (rule engine_ok_same_snakes)
  have u: "update e0 = Inr (?e', tick ?e', events ?e')"
    unfolding update_unfold using e1(1) e2(1) e3(1) e4(1) e5(1) by (simp add: then_do_def)
  have "same_world (ticked e0) ?e'" using u by (rule update_world)
  then have "tick ?e' = tick e0 + 1" by (simp add: same_world_def ticked_def)
  then show ?thesis using u ok' by simp
qed

section \<open>The tick counter\<close>

lemma update_tick:
  assumes "update e = Inr (e', t, evs)"
  shows "t = tick e + 1 \<and> tick e' = tick e + 1 \<and> evs = events e'"
proof -
  have "same_world (ticked e) e'" using assms by (rule update_world)
  then have "tick e' = tick e + 1" by (simp add: same_world_def ticked_def)
  then show ?thesis using update_parts [OF assms] by auto
qed

lemma updates_ticks:
  "updates n e = Inr (e', ts) \<Longrightarrow> ts = map (\<lambda>i. tick e + 1 + i) [0..<n] \<and> tick e' = tick e + n"
proof (induction n arbitrary: e ts)
  case 0
  then show ?case by simp
next
  case (Suc n)
  from Suc.prems obtain e1 t evs ts1 where
    u: "update e = Inr (e1, t, evs)" "updates n e1 = Inr (e', ts1)" "ts = t # ts1"
    by (auto split: sum.splits prod.splits)
  have t: "t = tick e + 1" "tick e1 = tick e + 1" using update_tick [OF u(1)] by simp_all
  have r: "ts1 = map (\<lambda>i. tick e1 + 1 + i) [0..<n]" "tick e' = tick e1 + n"
    using Suc.IH [OF u(2)] by simp_all
  have "map (\<lambda>i. tick e + 1 + i) [0..<Suc n]
          = (tick e + 1) # map (\<lambda>i. tick e + 1 + Suc i) [0..<n]"
    by (simp only: map_upt_Suc) simp
  then show ?case using u(3) t r by simp
qed

lemma updates_total:
  "engine_ok e \<Longrightarrow> \<exists>e' ts. updates n e = Inr (e', ts) \<and> engine_ok e'"
proof (induction n arbitrary: e)
  case 0
  then show ?case by simp
next
  case (Suc n)
  from update_total [OF Suc.prems] obtain e1 evs where
    u: "update e = Inr (e1, tick e + 1, evs)" "engine_ok e1" by blast
  from Suc.IH [OF u(2)] obtain e' ts where "updates n e1 = Inr (e', ts)" "engine_ok e'" by blast
  then show ?case using u(1) by simp
qed

text \<open>
  When update returns, it returns the old tick plus one; it returns on every engine whose
  living snakes have a head, length + growPending of at least 1 and angles of size at most
  \<open>2\<^sup>5\<^sup>0\<close>, and it keeps that condition.
\<close>

lemma update_returns_next_tick:
  "(\<forall>e' t evs. update e = Inr (e', t, evs) \<longrightarrow> t = tick e + 1 \<and> tick e' = tick e + 1) \<and>
   (\<forall>n e' ts. updates n e = Inr (e', ts) \<longrightarrow> ts = map (\<lambda>i. tick e + 1 + i) [0..<n]) \<and>
   (engine_ok e \<longrightarrow>
      (\<exists>e' evs. update e = Inr (e', tick e + 1, evs) \<and> engine_ok e') \<and>
      (\<forall>n. \<exists>e'. updates n e = Inr (e', map (\<lambda>i. tick e + 1 + i) [0..<n])))"
proof (intro conjI allI impI)
  fix e' t evs assume "update e = Inr (e', t, evs)"
  then show "t = tick e + 1" "tick e' = tick e + 1" using update_tick by blast+
next
  fix n e' ts assume "updates n e = Inr (e', ts)"
  then show "ts = map (\<lambda>i. tick e + 1 + i) [0..<n]" using updates_ticks by blast
next
  assume ok: "engine_ok e"
  then show "\<exists>e' evs. update e = Inr (e', tick e + 1, evs) \<and> engine_ok e'" by (rule update_total)
  fix n
  from updates_total [OF ok, of n] obtain e' ts where u: "updates n e = Inr (e', ts)" by blast
  then have "ts = map (\<lambda>i. tick e + 1 + i) [0..<n]" using updates_ticks by blast
  then show "\<exists>e'. updates n e = Inr (e', map (\<lambda>i. tick e + 1 + i) [0..<n])" using u by blast
qed

lemma engine_ok_engine_one: "engine_ok engine_one"
  by (simp add: engine_ok_def engine_one_def new_engine_def snake_ok_def snake_literal_def
        straight_body_def INITIAL_SNAKE_LENGTH_def)

lemma fl_exact_big: "fl 100000000000000000 = 100000000000000000"
proof -
  let ?x = "100000000000000000 :: real"
  have "2 powr 56 \<le> ?x" "?x < 2 powr 57" by simp_all
  then have "56 \<le> log 2 ?x" "log 2 ?x < 57"
    by (simp_all add: le_log_iff log_less_iff)
  then have l: "\<lfloor>log 2 ?x\<rfloor> = 56" by (simp add: floor_eq_iff)
  have r: "round_even (?x / 16) = 6250000000000000"
    by (simp add: round_even_def Let_def)
  have "fl ?x = of_int (round_even (?x / 2 powr of_int (max (\<lfloor>log 2 \<bar>?x\<bar>\<rfloor> - 52) (- 1074)))) *
                  2 powr of_int (max (\<lfloor>log 2 \<bar>?x\<bar>\<rfloor> - 52) (- 1074))"
    unfolding fl_def Let_def by simp
  also have "\<dots> = of_int (round_even (?x / 16)) * 16"
    using l by simp
  also have "\<dots> = ?x" unfolding r by simp
  finally show ?thesis .
qed

lemma turn_big:
  assumes "angle s = 0" "targetAngle s = 100000000000000000"
  shows "turn s = None"
  by (simp add: turn_def assms fl_exact_big norm_down_big)

lemma engine_big_snake:
  "snakes engine_big =
     [(''a'', (snake_literal ''a'' (straight_body 1000 1000 10))\<lparr>targetAngle := 100000000000000000\<rparr>)]"
  by (simp add: engine_big_def queueInput_def engine_one_def new_engine_def snake_literal_def
        Let_def)

text \<open>
  Claim C5 says that every call of update returns the new tick. The call below does not
  return: snake a has been given the target angle \<open>10\<^sup>1\<^sup>7\<close> by
  \<^verbatim>\<open>queueInput\<close>, a finite number, and the first normalisation loop of
  \<^verbatim>\<open>_moveSnakes\<close> subtracts \<^verbatim>\<open>TWO_PI\<close> from it without changing it.
\<close>

theorem update_never_returns:
  "update engine_big = Inl NoReturn"
proof -
  let ?s = "(snake_literal ''a'' (straight_body 1000 1000 10))\<lparr>targetAngle := 100000000000000000\<rparr>"
  have t: "turn ?s = None" by (rule turn_big) (simp_all add: snake_literal_def)
  have m: "move_one (ticked engine_big) ?s = Inl NoReturn" by (simp add: move_one_def t)
  have l: "map_of (snakes (ticked engine_big)) ''a'' = Some ?s"
    "map fst (snakes (ticked engine_big)) = [''a'']"
    by (simp_all add: ticked_def engine_big_snake)
  have a: "alive ?s" by (simp add: snake_literal_def)
  have "moveSnakes (ticked engine_big) = Inl NoReturn"
    unfolding moveSnakes_def l(2) by (simp add: moveSnake_def l(1) a m)
  then show ?thesis by (simp add: update_unfold then_do_def)
qed

section \<open>Crediting the killer\<close>

lemma sqrt_gt_iff: "0 \<le> r \<Longrightarrow> (r < sqrt x) = (r * r < x)"
proof -
  assume r: "0 \<le> r"
  have "(r < sqrt x) = (sqrt (r * r) < sqrt x)" using r by simp
  also have "\<dots> = (r * r < x)" by (rule real_sqrt_less_iff)
  finally show ?thesis .
qed

lemma deaths_wall_headon:
  "detect_deaths engine_wall_headon =
     Inr [\<lparr>death_id = ''b'', cause = Wall, killerId = None\<rparr>,
          \<lparr>death_id = ''a'', cause = HeadCollision, killerId = Some ''b''\<rparr>]"
  by (simp add: detect_deaths_def engine_wall_headon_def new_engine_def snake_literal_def
        BOUNDARY_KILL_MARGIN_def Let_def active_def sqrt_gt_iff self_hit_def
        SNAKE_HEAD_RADIUS_def SNAKE_SEGMENT_RADIUS_def dist2_def
        deaths_some_def head_to_head_def head_to_body_def)


lemma detect_wall_headon_result:
  "map_sum id (kills_of ''b'') (detectCollisions engine_wall_headon) = Inr (Some 0)"
  "map_sum id (score_of ''b'') (detectCollisions engine_wall_headon) = Inr (Some 0)"
  "map_sum id (killer_of ''a'') (detectCollisions engine_wall_headon) = Inr (Some (Some ''b''))"
  "map_sum id events (detectCollisions engine_wall_headon) =
     Inr [DeathEvent ''b'' ''b'' ''#3B82F6'' Wall None 0 10 7,
          DeathEvent ''a'' ''a'' ''#3B82F6'' HeadCollision (Some ''b'') 0 10 7]"
proof -
  let ?e = engine_wall_headon
  let ?A = "snake_literal ''a'' [\<lparr>px = 1940, py = 1000\<rparr>, \<lparr>px = 1937, py = 1000\<rparr>]"
  let ?B = "snake_literal ''b'' [\<lparr>px = 1951, py = 1000\<rparr>, \<lparr>px = 1948, py = 1000\<rparr>]"
  let ?e1 = "applyDeath ''b'' Wall None ?e"
  let ?e2 = "applyDeath ''a'' HeadCollision (Some ''b'') ?e1"
  have d: "detectCollisions ?e = Inr ?e2"
    by (simp add: detectCollisions_def deaths_wall_headon)
  have f: "snakes ?e = [(''a'', ?A), (''b'', ?B)]" "events ?e = []" "tick ?e = 7"
    by (simp_all add: engine_wall_headon_def new_engine_def)
  have al: "alive ?A" "alive ?B" by (simp_all add: snake_literal_def)
  have b: "map_of (snakes ?e) ''b'' = Some ?B" by (simp add: f)
  have nc: "\<not> credits ?e None \<or> None = Some ''b''" by (simp add: credits_def)
  note r1 = applyDeath_nocredit [OF b al(2) nc, of Wall]
  have s1: "snakes ?e1 = [(''a'', ?A), (''b'', killed_snake 7 Wall None ?B)]"
    using r1(1) by (simp add: f)
  have e1: "events ?e1 = [DeathEvent ''b'' ''b'' ''#3B82F6'' Wall None 0 10 7]"
    using r1(2) by (simp add: f snake_literal_def INITIAL_SNAKE_LENGTH_def)
  have t1: "tick ?e1 = 7" using r1(3) by (simp add: same_world_def f)
  have a: "map_of (snakes ?e1) ''a'' = Some ?A" by (simp add: s1)
  have nc2: "\<not> credits ?e1 (Some ''b'') \<or> Some ''b'' = Some ''a''"
    by (simp add: credits_def s1 killed_snake_fields)
  note r2 = applyDeath_nocredit [OF a al(1) nc2, of HeadCollision]
  have s2: "snakes ?e2 = [(''a'', killed_snake 7 HeadCollision (Some ''b'') ?A),
                          (''b'', killed_snake 7 Wall None ?B)]"
    using r2(1) by (simp add: s1 t1)
  have e2: "events ?e2 = [DeathEvent ''b'' ''b'' ''#3B82F6'' Wall None 0 10 7,
          DeathEvent ''a'' ''a'' ''#3B82F6'' HeadCollision (Some ''b'') 0 10 7]"
    using r2(2) by (simp add: e1 t1 snake_literal_def INITIAL_SNAKE_LENGTH_def)
  show "map_sum id (kills_of ''b'') (detectCollisions ?e) = Inr (Some 0)"
    by (simp add: d kills_of_def s2 killed_snake_fields) (simp add: snake_literal_def)
  show "map_sum id (score_of ''b'') (detectCollisions ?e) = Inr (Some 0)"
    by (simp add: d score_of_def s2 killed_snake_fields) (simp add: snake_literal_def)
  show "map_sum id (killer_of ''a'') (detectCollisions ?e) = Inr (Some (Some ''b''))"
    by (simp add: d killer_of_def s2 killed_snake_fields)
  show "map_sum id events (detectCollisions ?e) =
     Inr [DeathEvent ''b'' ''b'' ''#3B82F6'' Wall None 0 10 7,
          DeathEvent ''a'' ''a'' ''#3B82F6'' HeadCollision (Some ''b'') 0 10 7]"
    by (simp add: d e2)
qed

text \<open>
  Claim C7, as stated, fails: snake b dies on the wall and snake a dies head-on against b in
  the same tick. The death of a is applied with killerId b, but b is already dead, so b gets
  no kill and no score and no kill event is emitted.
\<close>

theorem dead_killer_not_credited:
  "map_sum id (killer_of ''a'') (detectCollisions engine_wall_headon) = Inr (Some (Some ''b'')) \<and>
   map_sum id (kills_of ''b'') (detectCollisions engine_wall_headon) = Inr (Some 0) \<and>
   map_sum id (score_of ''b'') (detectCollisions engine_wall_headon) = Inr (Some 0) \<and>
   map_sum id events (detectCollisions engine_wall_headon) =
     Inr [DeathEvent ''b'' ''b'' ''#3B82F6'' Wall None 0 10 7,
          DeathEvent ''a'' ''a'' ''#3B82F6'' HeadCollision (Some ''b'') 0 10 7]"
  using detect_wall_headon_result by simp

text \<open>
  Claim C7, amended: applying the death of a living snake marks it dead and always emits a
  death event with its final score and length; the killer gets +1 kill and +50 score and a
  kill event is emitted exactly when the killer id names another snake that is still alive at
  that moment; otherwise no kill event is emitted and no other snake changes.
\<close>

theorem applyDeath_credits_living_killer:
  assumes p: "map_of (snakes e) p = Some s0" "alive s0"
  shows "map_of (snakes (applyDeath p c kid e)) p =
           Some (s0\<lparr>alive := False, deathTick := Some (tick e), deathCause := Some c,
                    killedBy := kid\<rparr>) \<and>
         (\<exists>kill_events.
            events (applyDeath p c kid e) =
              events e @ kill_events @
                [DeathEvent p (username s0) (color s0) c kid (score s0) (snake_length s0) (tick e)] \<and>
            (\<forall>k killer. kid = Some k \<and> k \<noteq> [] \<and> k \<noteq> p \<and>
                 map_of (snakes e) k = Some killer \<and> alive killer \<longrightarrow>
               kill_events = [KillEvent k (username killer) p (username s0) c] \<and>
               map_of (snakes (applyDeath p c kid e)) k =
                 Some (killer\<lparr>kills := kills killer + 1, score := score killer + 50\<rparr>)) \<and>
            (\<not> credits e kid \<or> kid = Some p \<longrightarrow>
               kill_events = [] \<and>
               (\<forall>k. k \<noteq> p \<longrightarrow> map_of (snakes (applyDeath p c kid e)) k = map_of (snakes e) k)))"
proof (cases "\<not> credits e kid \<or> kid = Some p")
  case True
  note r = applyDeath_nocredit [OF p True, of c]
  have n: "\<not> (kid = Some k \<and> k \<noteq> [] \<and> k \<noteq> p \<and> map_of (snakes e) k = Some killer \<and> alive killer)"
    for k killer using True by (auto simp: credits_def)
  show ?thesis
    using n by (auto simp: r(1) r(2) AList.update_conv' killed_snake_def)
next
  case False
  then obtain k killer where k: "kid = Some k" "k \<noteq> []" "k \<noteq> p"
      "map_of (snakes e) k = Some killer" "alive killer"
    by (auto simp: credits_def split: option.splits)
  note r = applyDeath_credit [OF p k, of c, unfolded k(1)]
  show ?thesis
    using False k(2-5) unfolding k(1)
    by (auto simp: r(1) r(2) AList.update_conv' killed_snake_def credited_def)
qed


theorem applyDeath_credits_living_killer_witness:
  "alive_of ''a'' engine_wall_headon = Some True \<and>
   alive_of ''b'' engine_wall_headon = Some True \<and>
   alive_of ''a'' (applyDeath ''a'' HeadCollision (Some ''b'') engine_wall_headon) = Some False \<and>
   kills_of ''b'' (applyDeath ''a'' HeadCollision (Some ''b'') engine_wall_headon) = Some 1 \<and>
   score_of ''b'' (applyDeath ''a'' HeadCollision (Some ''b'') engine_wall_headon) = Some 50 \<and>
   events (applyDeath ''a'' HeadCollision (Some ''b'') engine_wall_headon) =
     [KillEvent ''b'' ''b'' ''a'' ''a'' HeadCollision,
      DeathEvent ''a'' ''a'' ''#3B82F6'' HeadCollision (Some ''b'') 0 10 7]"
proof -
  let ?e = engine_wall_headon
  let ?A = "snake_literal ''a'' [\<lparr>px = 1940, py = 1000\<rparr>, \<lparr>px = 1937, py = 1000\<rparr>]"
  let ?B = "snake_literal ''b'' [\<lparr>px = 1951, py = 1000\<rparr>, \<lparr>px = 1948, py = 1000\<rparr>]"
  let ?e' = "applyDeath ''a'' HeadCollision (Some ''b'') ?e"
  have f: "snakes ?e = [(''a'', ?A), (''b'', ?B)]" "events ?e = []" "tick ?e = 7"
    by (simp_all add: engine_wall_headon_def new_engine_def)
  have a: "map_of (snakes ?e) ''a'' = Some ?A" "alive ?A"
    by (simp_all add: f snake_literal_def)
  have b: "map_of (snakes ?e) ''b'' = Some ?B" "alive ?B"
    by (simp_all add: f snake_literal_def)
  from applyDeath_credits_living_killer [OF a, of HeadCollision "Some ''b''"]
  obtain ke where v: "map_of (snakes ?e') ''a'' =
        Some (?A\<lparr>alive := False, deathTick := Some (tick ?e), deathCause := Some HeadCollision,
                  killedBy := Some ''b''\<rparr>)"
    and ev: "events ?e' = events ?e @ ke @
        [DeathEvent ''a'' (username ?A) (color ?A) HeadCollision (Some ''b'') (score ?A)
           (snake_length ?A) (tick ?e)]"
    and cr: "\<forall>k killer. Some ''b'' = Some k \<and> k \<noteq> [] \<and> k \<noteq> ''a'' \<and>
                 map_of (snakes ?e) k = Some killer \<and> alive killer \<longrightarrow>
               ke = [KillEvent k (username killer) ''a'' (username ?A) HeadCollision] \<and>
               map_of (snakes ?e') k =
                 Some (killer\<lparr>kills := kills killer + 1, score := score killer + 50\<rparr>)"
    by blast
  from cr b have k: "ke = [KillEvent ''b'' (username ?B) ''a'' (username ?A) HeadCollision]"
    "map_of (snakes ?e') ''b'' = Some (?B\<lparr>kills := kills ?B + 1, score := score ?B + 50\<rparr>)"
    by simp_all
  show ?thesis
    using a b v ev k
    by (simp add: alive_of_def kills_of_def score_of_def f snake_literal_def
          INITIAL_SNAKE_LENGTH_def)
qed

section \<open>The growth bound\<close>

lemma turn_straight: "angle s = 0 \<Longrightarrow> targetAngle s = 0 \<Longrightarrow> turn s = Some 0"
proof -
  assume a: "angle s = 0" "targetAngle s = 0"
  have n: "norm_down 0 = Some 0" "norm_up 0 = Some 0"
    by (simp_all add: norm_down.simps [of 0] norm_up.simps [of 0] MATH_PI_def)
  have p: "TWO_PI \<noteq> 0" by (simp add: TWO_PI_def MATH_PI_def)
  have f: "js_fmod 0 TWO_PI = 0" "js_fmod TWO_PI TWO_PI = 0" "fl 0 = 0"
    using p by (simp_all add: js_fmod_def js_trunc_def fl_def)
  show ?thesis by (simp add: turn_def a n f Let_def SNAKE_TURN_RATE_def)
qed

lemma body20: "straight_body 1000 1000 20 =
   [\<lparr>px = 1000, py = 1000\<rparr>, \<lparr>px = 997, py = 1000\<rparr>, \<lparr>px = 994, py = 1000\<rparr>,
    \<lparr>px = 991, py = 1000\<rparr>, \<lparr>px = 988, py = 1000\<rparr>, \<lparr>px = 985, py = 1000\<rparr>,
    \<lparr>px = 982, py = 1000\<rparr>, \<lparr>px = 979, py = 1000\<rparr>, \<lparr>px = 976, py = 1000\<rparr>,
    \<lparr>px = 973, py = 1000\<rparr>, \<lparr>px = 970, py = 1000\<rparr>, \<lparr>px = 967, py = 1000\<rparr>,
    \<lparr>px = 964, py = 1000\<rparr>, \<lparr>px = 961, py = 1000\<rparr>, \<lparr>px = 958, py = 1000\<rparr>,
    \<lparr>px = 955, py = 1000\<rparr>, \<lparr>px = 952, py = 1000\<rparr>, \<lparr>px = 949, py = 1000\<rparr>,
    \<lparr>px = 946, py = 1000\<rparr>, \<lparr>px = 943, py = 1000\<rparr>]"
  by (simp add: straight_body_def SNAKE_SPEED_def upt_conv_Cons)

lemma move_boost: "moveSnakes (ticked engine_boost) = Inr boost_after_move"
proof -
  let ?s = "(snake_literal ''a'' (straight_body 1000 1000 20))\<lparr>snake_length := 20, boosting := True\<rparr>"
  have t: "turn ?s = Some 0" by (rule turn_straight) (simp_all add: snake_literal_def)
  have m: "move_one (ticked engine_boost) ?s =
      Inr (boost_moved, [\<lparr>fx = 946, fy = 1000, ftype = Normal, fvalue = FOOD_SCORE\<rparr>])"
    unfolding move_one_def t
    by (simp add: body20 Let_def canBoost_def move_speed_def active_def snake_literal_def
          grow_trim_def boost_cost_def ghost_wrap_def ticked_def engine_boost_def new_engine_def
          boost_moved_def INITIAL_SNAKE_LENGTH_def SNAKE_BOOST_SPEED_def MAX_SNAKE_SEGMENTS_def
          BOOST_COST_INTERVAL_def)
  have l: "map_of (snakes (ticked engine_boost)) ''a'' = Some ?s"
    "map fst (snakes (ticked engine_boost)) = [''a'']"
    by (simp_all add: ticked_def engine_boost_def)
  have a: "alive ?s" by (simp add: snake_literal_def)
  have r: "(ticked engine_boost)\<lparr>snakes := AList.update ''a'' boost_moved (snakes (ticked engine_boost)),
             food := food (ticked engine_boost) @
               [\<lparr>fx = 946, fy = 1000, ftype = Normal, fvalue = FOOD_SCORE\<rparr>]\<rparr> = boost_after_move"
    by (simp add: ticked_def engine_boost_def new_engine_def boost_after_move_def)
  show ?thesis
    unfolding moveSnakes_def l(2) by (simp add: moveSnake_def l(1) a m r)
qed

lemma boost_fields:
  "snakes boost_after_move = [(''a'', boost_moved)]"
  "powerups boost_after_move = []"
  "events boost_after_move = []"
  "food boost_after_move = [\<lparr>fx = 946, fy = 1000, ftype = Normal, fvalue = FOOD_SCORE\<rparr>]"
  "centerX boost_after_move = 1000" "centerY boost_after_move = 1000"
  "boundaryRadius boost_after_move = 950"
  by (simp_all add: boost_after_move_def new_engine_def BOUNDARY_KILL_MARGIN_def)

lemma detect_boost: "detectCollisions boost_after_move = Inr boost_after_move"
proof -
  have "detect_deaths boost_after_move = Inr []"
    by (simp add: detect_deaths_def boost_fields boost_moved_def snake_literal_def
        Let_def active_def sqrt_gt_iff self_hit_def
        SNAKE_HEAD_RADIUS_def SNAKE_SEGMENT_RADIUS_def dist2_def
        deaths_some_def head_to_head_def head_to_body_def)
  then show ?thesis by (simp add: detectCollisions_def)
qed

lemma food_boost: "checkFood boost_after_move = Inr boost_after_move"
  by (simp add: checkFood_def checkFood_snake_def boost_fields boost_moved_def snake_literal_def
        eat_one_def Let_def SNAKE_HEAD_RADIUS_def FOOD_RADIUS_def)

lemma pickup_boost: "checkPowerupPickup boost_after_move = Inr boost_after_move"
  by (simp add: checkPowerupPickup_def checkPowerupPickup_snake_def boost_fields boost_moved_def
        snake_literal_def Let_def)

lemma effects_boost: "tickActivePowerups boost_after_move = Inr boost_after_move"
  by (simp add: tickActivePowerups_def tickActivePowerups_snake_def boost_fields boost_moved_def
        snake_literal_def Let_def despawn_powerups_def)

lemma maintainFood_snakes: "snakes (maintainFood e) = snakes e"
  unfolding maintainFood_def using maintainFood_loop_frame by simp

lemma update_boost: "\<exists>e'. update engine_boost = Inr (e', tick e', events e') \<and>
   snakes e' = [(''a'', boost_moved)]"
proof -
  let ?e' = "maybeSpawnPowerup (maintainFood boost_after_move)"
  have "update engine_boost = Inr (?e', tick ?e', events ?e')"
    by (simp add: update_unfold then_do_def move_boost detect_boost food_boost pickup_boost
          effects_boost)
  moreover have "snakes ?e' = [(''a'', boost_moved)]"
    using maybeSpawnPowerup_frame [of "maintainFood boost_after_move"]
    by (simp add: maintainFood_snakes boost_fields)
  ultimately show ?thesis by blast
qed

text \<open>
  Claim C2, as stated, fails: the boost cost decrements the length after the body has been
  trimmed to length + growPending, so on a boost cost tick the snake is left with one segment
  more than length + growPending.
\<close>

theorem boost_cost_exceeds_target:
  "segs_of ''a'' engine_boost = Some 20 \<and> target_of ''a'' engine_boost = Some 20 \<and>
   after_update (segs_of ''a'') engine_boost = Inr (Some 20) \<and>
   after_update (target_of ''a'') engine_boost = Inr (Some 19)"
proof -
  from update_boost obtain e' where
    u: "update engine_boost = Inr (e', tick e', events e')" "snakes e' = [(''a'', boost_moved)]"
    by blast
  have "segs_of ''a'' engine_boost = Some 20" "target_of ''a'' engine_boost = Some 20"
    by (simp_all add: segs_of_def target_of_def engine_boost_def body20 snake_literal_def)
  moreover have "after_update (segs_of ''a'') engine_boost = Inr (Some 20)"
    "after_update (target_of ''a'') engine_boost = Inr (Some 19)"
    by (simp_all add: after_update_def u segs_of_def target_of_def boost_moved_def snake_literal_def)
  ultimately show ?thesis by simp
qed

lemma seg_bound_keeps_body: "seg_bound tk s \<Longrightarrow> keeps_body s s' \<Longrightarrow> seg_bound tk s'"
  unfolding seg_bound_def keeps_body_def by auto

lemma keeps_body_dead: "keeps_body s s' \<Longrightarrow> \<not> alive s \<Longrightarrow> s' = s"
  by (simp add: keeps_body_def)

lemma update_step:
  assumes u: "update e = Inr (e', t, evs)" and k: "map_of (snakes e) k = Some s"
  shows "\<exists>e1 e2 s1 s2 s'.
     moveSnakes (ticked e) = Inr e1 \<and> detectCollisions e1 = Inr e2 \<and>
     map_of (snakes e1) k = Some s1 \<and> map_of (snakes e2) k = Some s2 \<and>
     map_of (snakes e') k = Some s' \<and>
     keeps_status s s1 \<and> death_step s1 s2 \<and> keeps_life s2 s' \<and>
     same_world (ticked e) e1 \<and> same_world e1 e2 \<and> same_world e2 e' \<and>
     t = tick e + 1 \<and> evs = events e'"
proof -
  from update_parts [OF u] obtain e1 e2 where
    p: "moveSnakes (ticked e) = Inr e1" "detectCollisions e1 = Inr e2"
       "snakes_rel keeps_life e2 e'" "t = tick e'" "evs = events e'"
    by blast
  have k0: "map_of (snakes (ticked e)) k = Some s" using k by (simp add: ticked_def)
  note r1 = moveSnakes_rel [OF p(1)]
  note r2 = detectCollisions_rel [OF p(2)]
  from snakes_relD [OF r1 k0] obtain s1 where s1: "map_of (snakes e1) k = Some s1" "keeps_status s s1"
    by blast
  from snakes_relD [OF r2 s1(1)] obtain s2 where s2: "map_of (snakes e2) k = Some s2" "death_step s1 s2"
    by blast
  from snakes_relD [OF p(3) s2(1)] obtain s' where s': "map_of (snakes e') k = Some s'" "keeps_life s2 s'"
    by blast
  have w: "same_world (ticked e) e1" "same_world e1 e2" "same_world e2 e'"
    using r1 r2 p(3) by (auto dest: snakes_rel_world)
  then have "tick e' = tick e + 1" by (simp add: same_world_def ticked_def)
  then show ?thesis using p s1 s2 s' w by auto
qed

text \<open>
  Claim C2, amended: after update, every snake that was alive before the call has at most
  MAX_SNAKE_SEGMENTS segments and at most length + growPending + 1 of them, and at most
  length + growPending unless it is boosting on a boost cost tick with length at least 13; a
  snake that was dead before the call is unchanged. Update returns on every engine whose
  living snakes have a head, length + growPending of at least 1 and angles of size at most
  \<open>2\<^sup>5\<^sup>0\<close>.
\<close>

theorem update_segment_bound:
  "(engine_ok e \<longrightarrow> (\<exists>e' evs. update e = Inr (e', tick e + 1, evs))) \<and>
   (\<forall>e' t evs k s. update e = Inr (e', t, evs) \<and> map_of (snakes e) k = Some s \<longrightarrow>
      (\<exists>s'. map_of (snakes e') k = Some s' \<and>
         (\<not> alive s \<longrightarrow> s' = s) \<and>
         (alive s \<longrightarrow>
            length (segments s') \<le> MAX_SNAKE_SEGMENTS \<and>
            length (segments s') \<le> snake_length s' + growPending s' + 1 \<and>
            (\<not> (boosting s' \<and> t mod BOOST_COST_INTERVAL = 0 \<and>
                 INITIAL_SNAKE_LENGTH + 3 \<le> snake_length s')
               \<longrightarrow> length (segments s') \<le> snake_length s' + growPending s'))))"
proof (intro conjI allI impI)
  assume "engine_ok e"
  from update_total [OF this] show "\<exists>e' evs. update e = Inr (e', tick e + 1, evs)" by blast
next
  fix e' t evs k s
  assume "update e = Inr (e', t, evs) \<and> map_of (snakes e) k = Some s"
  then have u: "update e = Inr (e', t, evs)" and k: "map_of (snakes e) k = Some s" by simp_all
  from update_step [OF u k] obtain e1 e2 s1 s2 s' where
    m: "moveSnakes (ticked e) = Inr e1" and
    l: "map_of (snakes e1) k = Some s1" "map_of (snakes e') k = Some s'" and
    r: "keeps_status s s1" "death_step s1 s2" "keeps_life s2 s'" and
    w: "same_world (ticked e) e1" and t: "t = tick e + 1"
    by blast
  have b: "keeps_body s1 s2" "keeps_body s2 s'"
    using r by (simp_all add: death_step_def keeps_life_def)
  have dead: "s' = s" if "\<not> alive s"
  proof -
    have 1: "s1 = s" using r(1) that by (simp add: keeps_status_def)
    then have 2: "s2 = s" using keeps_body_dead [OF b(1)] that by simp
    then show ?thesis using keeps_body_dead [OF b(2)] that by simp
  qed
  have live: "seg_bound t s'" if "alive s"
  proof -
    have "alive s1" using r(1) that by (simp add: keeps_status_def)
    from moveSnakes_bound [OF m l(1) this] have "seg_bound (tick e1) s1" .
    moreover have "tick e1 = t" using w t by (simp add: same_world_def ticked_def)
    ultimately show ?thesis using seg_bound_keeps_body b by blast
  qed
  show "\<exists>s'. map_of (snakes e') k = Some s' \<and>
         (\<not> alive s \<longrightarrow> s' = s) \<and>
         (alive s \<longrightarrow>
            length (segments s') \<le> MAX_SNAKE_SEGMENTS \<and>
            length (segments s') \<le> snake_length s' + growPending s' + 1 \<and>
            (\<not> (boosting s' \<and> t mod BOOST_COST_INTERVAL = 0 \<and>
                 INITIAL_SNAKE_LENGTH + 3 \<le> snake_length s')
               \<longrightarrow> length (segments s') \<le> snake_length s' + growPending s'))"
  proof (cases "alive s")
    case True
    from live [OF True] show ?thesis using l(2) True by (simp add: seg_bound_def)
  next
    case False
    from dead [OF False] show ?thesis using l(2) False by simp
  qed
qed

theorem update_segment_bound_witness:
  "engine_ok engine_one \<and> alive_of ''a'' engine_one = Some True \<and>
   (\<exists>e' evs s'. update engine_one = Inr (e', 1, evs) \<and> map_of (snakes e') ''a'' = Some s' \<and>
      length (segments s') \<le> 200 \<and>
      length (segments s') \<le> snake_length s' + growPending s')"
proof -
  let ?s = "snake_literal ''a'' (straight_body 1000 1000 10)"
  have t: "tick engine_one = 0" and k: "map_of (snakes engine_one) ''a'' = Some ?s"
    and a: "alive ?s"
    by (simp_all add: engine_one_def new_engine_def snake_literal_def)
  note c = update_segment_bound [of engine_one]
  from c engine_ok_engine_one obtain e' evs where u: "update engine_one = Inr (e', 1, evs)"
    using t by auto
  from c u k obtain s' where s': "map_of (snakes e') ''a'' = Some s'"
    "alive ?s \<longrightarrow>
            length (segments s') \<le> MAX_SNAKE_SEGMENTS \<and>
            length (segments s') \<le> snake_length s' + growPending s' + 1 \<and>
            (\<not> (boosting s' \<and> (1::nat) mod BOOST_COST_INTERVAL = 0 \<and>
                 INITIAL_SNAKE_LENGTH + 3 \<le> snake_length s')
               \<longrightarrow> length (segments s') \<le> snake_length s' + growPending s')"
    by blast
  from s'(2) a have "length (segments s') \<le> 200"
    "length (segments s') \<le> snake_length s' + growPending s'"
    by (simp_all add: MAX_SNAKE_SEGMENTS_def BOOST_COST_INTERVAL_def)
  then show ?thesis using engine_ok_engine_one u s'(1) k a by (auto simp: alive_of_def)
qed

section \<open>The boundary\<close>





























section \<open>Head-to-head collisions\<close>












end
